theory Spec2Isabelle
  imports Complex_Main
begin

section \<open>Pi-Patrol: a shallow embedding of the capture, recognition and distribution pipeline\<close>

text \<open>
  The development follows \<^verbatim>\<open>pi_patrol.py\<close> and \<^verbatim>\<open>web_server.py\<close>.
  Python values are modelled as follows: unbounded integers as \<open>int\<close>, a float
  (confidence values, clock readings) as the \<open>real\<close> it denotes, with the results of
  float subtraction and division rounded as IEEE 754 does; \<open>str\<close> and \<open>bytes\<close> as
  \<open>string\<close>, a dict as a map, \<open>None\<close> as \<open>None\<close>. An instance of Python's \<open>Exception\<close> is a value of
  \<open>py_exception\<close>; a call that may raise returns \<open>py_exception + 'a\<close> with \<open>Inl\<close> the
  raised exception. Output written with \<open>print\<close> is not part of the model.

  OpenCV, the camera driver, the clock, the file system and SQLite are not code of the
  program: every call into them is a parameter of the model (a field of the records
  \<open>cv2\<close>, \<open>lbph\<close> and \<open>env\<close>), so every theorem holds for whatever those calls return
  or raise. The one exception is the id that SQLite gives a new row, which is written
  out in \<open>sqlite_insert\<close>.
  Images are values of a type variable \<open>'img\<close>.
\<close>

subsection \<open>Exceptions and results\<close>

datatype py_exception = PyException string

definition bindE :: "'e + 'a \<Rightarrow> ('a \<Rightarrow> 'e + 'b) \<Rightarrow> 'e + 'b" where
  "bindE m f = (case m of Inl e \<Rightarrow> Inl e | Inr x \<Rightarrow> f x)"

text \<open>\<open>d.get(k, default)\<close> on a dict.\<close>

definition dict_get :: "('k \<rightharpoonup> 'v) \<Rightarrow> 'k \<Rightarrow> 'v \<Rightarrow> 'v" where
  "dict_get d k dflt = (case d k of Some v \<Rightarrow> v | None \<Rightarrow> dflt)"

subsection \<open>Float arithmetic\<close>

text \<open>
  A Python float is an IEEE 754 double. \<open>float_round x\<close> is the double nearest to the
  real \<open>x\<close>, the one with the even significand when two are equally near:
  \<open>float_ulp x\<close> is the distance between the doubles around \<open>x\<close> (53 bits of
  significand, the least exponent is -1022). Overflow is left out: no number of the
  program comes near the largest double. \<open>a - b\<close> and \<open>a / b\<close> on floats are the exact
  results, rounded.
\<close>

definition round_half_even :: "real \<Rightarrow> int" where
  "round_half_even r =
     (let f = \<lfloor>r\<rfloor> in
      if r - of_int f < 1 / 2 then f
      else if 1 / 2 < r - of_int f then f + 1
      else if even f then f else f + 1)"

definition float_ulp :: "real \<Rightarrow> real" where
  "float_ulp x = 2 powi (max \<lfloor>log 2 \<bar>x\<bar>\<rfloor> (- 1022) - 52)"

definition float_round :: "real \<Rightarrow> real" where
  "float_round x = (if x = 0 then 0 else float_ulp x * of_int (round_half_even (x / float_ulp x)))"

definition float_sub :: "real \<Rightarrow> real \<Rightarrow> real" where
  "float_sub a b = float_round (a - b)"

definition float_div :: "real \<Rightarrow> real \<Rightarrow> real" where
  "float_div a b = float_round (a / b)"

subsection \<open>Paths\<close>

text \<open>
  \<open>posix_str p\<close> is \<open>str(Path(p))\<close> on a POSIX system: the path is split at the
  slashes, the empty components and the components \<open>.\<close> are dropped (a component \<open>..\<close>
  stays), and the rest is joined again behind the root, which is \<open>//\<close> for exactly two
  leading slashes and \<open>/\<close> for any other number of them.
\<close>

fun split_slash :: "string \<Rightarrow> string list" where
  "split_slash [] = [[]]"
| "split_slash (c # cs) =
     (if c = CHR ''/'' then [] # split_slash cs
      else (case split_slash cs of w # ws \<Rightarrow> (c # w) # ws | [] \<Rightarrow> [[c]]))"

fun join_slash :: "string list \<Rightarrow> string" where
  "join_slash [] = []"
| "join_slash [w] = w"
| "join_slash (w # ws) = w @ ''/'' @ join_slash ws"

definition posix_root :: "string \<Rightarrow> string" where
  "posix_root p =
     (let n = length (takeWhile (\<lambda>c. c = CHR ''/'') p)
      in if n = 0 then [] else if n = 2 then ''//'' else ''/'')"

definition posix_str :: "string \<Rightarrow> string" where
  "posix_str p =
     (let parts = filter (\<lambda>w. w \<noteq> [] \<and> w \<noteq> ''.'') (split_slash p)
      in if posix_root p = [] \<and> parts = [] then ''.'' else posix_root p @ join_slash parts)"

text \<open>\<open>str(d / f)\<close> on \<open>pathlib\<close> paths: an absolute \<open>f\<close> replaces \<open>d\<close>.\<close>

definition path_join :: "string \<Rightarrow> string \<Rightarrow> string" where
  "path_join d f =
     (case f of
        c # cs \<Rightarrow> if c = CHR ''/'' then posix_str f else posix_str (d @ ''/'' @ f)
      | [] \<Rightarrow> posix_str d)"

subsection \<open>Configuration (class \<open>Config\<close>)\<close>

definition BASE_DIR :: string where
  "BASE_DIR = ''/home/pi/Security/pi_patrol''"

definition EVENTS_DIR :: string where
  "EVENTS_DIR = BASE_DIR @ ''/events''"

definition RECORDINGS_DIR :: string where
  "RECORDINGS_DIR = BASE_DIR @ ''/recordings''"


definition VIDEO_DURATION :: real where
  "VIDEO_DURATION = 5"

definition FACE_SIZE :: "nat \<times> nat" where
  "FACE_SIZE = (200, 200)"

definition CONFIDENCE_THRESHOLD :: real where
  "CONFIDENCE_THRESHOLD = 70"

definition IDLE_TIMEOUT :: real where
  "IDLE_TIMEOUT = 10"

subsection \<open>The OpenCV interface\<close>

datatype color_code = COLOR_BGR2GRAY | COLOR_RGB2BGR

text \<open>A face region \<open>(x, y, w, h)\<close> as \<open>detectMultiScale\<close> returns it.\<close>

type_synonym box = "int \<times> int \<times> int \<times> int"

type_synonym color = "nat \<times> nat \<times> nat"

text \<open>
  \<open>clahe_apply clipLimit tileGridSize img\<close> is
  \<^verbatim>\<open>cv2.createCLAHE(clipLimit=..., tileGridSize=...).apply(img)\<close>;
  \<open>detectMultiScale img scaleFactor minNeighbors minSize\<close> is the call on the Haar
  cascade of the recognizer; \<open>np_slice img (x, y, w, h)\<close> is the array slice
  \<^verbatim>\<open>img[y:y+h, x:x+w]\<close>, which never raises; \<open>imencode\<close> is
  \<^verbatim>\<open>cv2.imencode(".jpg", frame, [IMWRITE_JPEG_QUALITY, 70])\<close> with the buffer
  already turned into bytes.
\<close>

record 'img cv2 =
  cvtColor :: "'img \<Rightarrow> color_code \<Rightarrow> py_exception + 'img"
  clahe_apply :: "real \<Rightarrow> nat \<times> nat \<Rightarrow> 'img \<Rightarrow> py_exception + 'img"
  detectMultiScale :: "'img \<Rightarrow> real \<Rightarrow> nat \<Rightarrow> nat \<times> nat \<Rightarrow> py_exception + box list"
  np_slice :: "'img \<Rightarrow> box \<Rightarrow> 'img"
  resize :: "'img \<Rightarrow> nat \<times> nat \<Rightarrow> py_exception + 'img"
  rectangle :: "'img \<Rightarrow> int \<times> int \<Rightarrow> int \<times> int \<Rightarrow> color \<Rightarrow> py_exception + 'img"
  putText :: "'img \<Rightarrow> string \<Rightarrow> int \<times> int \<Rightarrow> color \<Rightarrow> py_exception + 'img"
  imencode :: "'img \<Rightarrow> py_exception + bool \<times> string"

subsection \<open>The face recognizer (class \<open>LBPHRecognizer\<close>)\<close>

text \<open>
  The object holds the label dict and the OpenCV LBPH classifier; \<open>predict\<close> is the
  \<open>predict\<close> method of the classifier in its current (trained or loaded) state, which
  returns a label id and a confidence or raises.
\<close>

record 'img LBPHRecognizer =
  labels :: "int \<rightharpoonup> string"
  predict :: "'img \<Rightarrow> py_exception + int \<times> real"

text \<open>A detection \<open>(name, conf, (x, y, w, h))\<close>.\<close>

type_synonym detection = "string \<times> real \<times> box"

definition preprocess_face :: "'img cv2 \<Rightarrow> 'img \<Rightarrow> py_exception + 'img" where
  "preprocess_face cv img =
     bindE (cvtColor cv img COLOR_BGR2GRAY) (\<lambda>gray.
     bindE (clahe_apply cv 2 (8, 8) gray) (\<lambda>gray.
     resize cv gray FACE_SIZE))"

text \<open>
  The body of the \<open>try\<close> statement of \<open>recognize_faces\<close> with its \<open>except Exception\<close>
  handler, for the resized region \<open>roi\<close> of the box \<open>b\<close>.
\<close>

definition classify :: "'img LBPHRecognizer \<Rightarrow> 'img \<Rightarrow> box \<Rightarrow> detection" where
  "classify r roi b =
     (case predict r roi of
        Inr (label_id, conf) \<Rightarrow>
          (if conf < CONFIDENCE_THRESHOLD
           then (dict_get (labels r) label_id ''Unknown'', conf, b)
           else (''Unknown'', conf, b))
      | Inl e \<Rightarrow> (''Unknown'', 100, b))"

text \<open>One iteration of the loop over the detected boxes: slice, resize, classify.\<close>

definition recognize_one :: "'img cv2 \<Rightarrow> 'img LBPHRecognizer \<Rightarrow> 'img \<Rightarrow> box \<Rightarrow> py_exception + detection" where
  "recognize_one cv r gray b =
     bindE (resize cv (np_slice cv gray b) FACE_SIZE) (\<lambda>roi. Inr (classify r roi b))"

fun recognize_loop ::
  "'img cv2 \<Rightarrow> 'img LBPHRecognizer \<Rightarrow> 'img \<Rightarrow> box list \<Rightarrow> detection list \<Rightarrow> py_exception + detection list"
where
  "recognize_loop cv r gray [] results = Inr results"
| "recognize_loop cv r gray (b # faces) results =
     bindE (recognize_one cv r gray b) (\<lambda>d. recognize_loop cv r gray faces (results @ [d]))"

definition recognize_faces :: "'img cv2 \<Rightarrow> 'img LBPHRecognizer \<Rightarrow> 'img \<Rightarrow> py_exception + detection list" where
  "recognize_faces cv r frame =
     bindE (cvtColor cv frame COLOR_BGR2GRAY) (\<lambda>gray.
     bindE (clahe_apply cv 2 (8, 8) gray) (\<lambda>gray.
     bindE (detectMultiScale cv gray (11 / 10) 4 (80, 80)) (\<lambda>faces.
     recognize_loop cv r gray faces [])))"

subsection \<open>Training and loading the label mapping\<close>

text \<open>
  An entry of \<open>faces_dir\<close> as \<open>iterdir()\<close> yields it: a directory, with what
  \<open>cv2.imread\<close> returns for each file that \<open>glob("*.jpg")\<close> finds in it (\<open>None\<close> for
  an unreadable file), or anything else. A listing is the list of the entries in the
  order of the enumeration.
\<close>

datatype 'img dir_entry = Folder string "'img option list" | PlainFile string

fun is_dir :: "'img dir_entry \<Rightarrow> bool" where
  "is_dir (Folder n imgs) = True"
| "is_dir (PlainFile n) = False"

fun entry_name :: "'img dir_entry \<Rightarrow> string" where
  "entry_name (Folder n imgs) = n"
| "entry_name (PlainFile n) = n"

text \<open>
  The OpenCV classifier object: \<open>lbph_create\<close> is the prediction of the classifier as
  \<open>LBPHFaceRecognizer_create\<close> returns it, \<open>lbph_train faces labels\<close> the prediction after
  \<open>train(faces, labels)\<close>, \<open>lbph_read\<close> the prediction after \<open>read(model_path)\<close>,
  \<open>lbph_save\<close> the outcome of \<open>save(model_path)\<close>.
\<close>

record 'img lbph =
  lbph_create :: "'img \<Rightarrow> py_exception + int \<times> real"
  lbph_train :: "'img list \<Rightarrow> int list \<Rightarrow> py_exception + ('img \<Rightarrow> py_exception + int \<times> real)"
  lbph_read :: "py_exception + ('img \<Rightarrow> py_exception + int \<times> real)"
  lbph_save :: "py_exception + unit"

text \<open>\<open>_load_labels\<close>: the dict comprehension over \<open>enumerate(self.faces_dir.iterdir())\<close>.\<close>

definition load_labels :: "'img dir_entry list \<Rightarrow> (int \<rightharpoonup> string)" where
  "load_labels listing =
     fold (\<lambda>(i, folder) d. if is_dir folder then d(int i \<mapsto> entry_name folder) else d)
       (enumerate 0 listing) Map.empty"

text \<open>The inner loop of \<open>train\<close>, over the images of one person folder.\<close>

fun train_images ::
  "'img cv2 \<Rightarrow> 'img option list \<Rightarrow> int \<Rightarrow> 'img list \<Rightarrow> int list \<Rightarrow> py_exception + 'img list \<times> int list"
where
  "train_images cv [] label_id faces ids = Inr (faces, ids)"
| "train_images cv (None # imgs) label_id faces ids = train_images cv imgs label_id faces ids"
| "train_images cv (Some img # imgs) label_id faces ids =
     bindE (preprocess_face cv img) (\<lambda>face.
       train_images cv imgs label_id (faces @ [face]) (ids @ [label_id]))"

text \<open>The outer loop of \<open>train\<close>, over the listing; \<open>labs\<close> is \<open>self.labels\<close>.\<close>

fun train_folders ::
  "'img cv2 \<Rightarrow> 'img dir_entry list \<Rightarrow> int \<Rightarrow> (int \<rightharpoonup> string) \<Rightarrow> 'img list \<Rightarrow> int list \<Rightarrow>
     py_exception + (int \<rightharpoonup> string) \<times> 'img list \<times> int list"
where
  "train_folders cv [] label_id labs faces ids = Inr (labs, faces, ids)"
| "train_folders cv (PlainFile n # listing) label_id labs faces ids =
     train_folders cv listing label_id labs faces ids"
| "train_folders cv (Folder person_name imgs # listing) label_id labs faces ids =
     bindE (train_images cv imgs label_id faces ids) (\<lambda>(faces, ids).
       train_folders cv listing (label_id + 1) (labs(label_id \<mapsto> person_name)) faces ids)"

text \<open>
  \<open>train\<close>, for the listing of \<open>faces_dir\<close> (empty when the directory had to be
  created). The classifier is trained and saved only when there is a face.
\<close>

definition train ::
  "'img cv2 \<Rightarrow> 'img lbph \<Rightarrow> 'img dir_entry list \<Rightarrow> 'img LBPHRecognizer \<Rightarrow> py_exception + 'img LBPHRecognizer"
where
  "train cv cl listing r =
     bindE (train_folders cv listing 0 Map.empty [] []) (\<lambda>(labs, faces, ids).
       if faces \<noteq> []
       then bindE (lbph_train cl faces ids) (\<lambda>p.
            bindE (lbph_save cl) (\<lambda>_. Inr (r\<lparr>labels := labs, predict := p\<rparr>)))
       else Inr (r\<lparr>labels := labs\<rparr>))"

text \<open>
  The constructor: \<open>model_path\<close> is \<open>faces_dir / "model.yml"\<close>, so the model file
  exists when the listing has an entry of that name.
\<close>

definition LBPHRecognizer_init ::
  "'img cv2 \<Rightarrow> 'img lbph \<Rightarrow> 'img dir_entry list \<Rightarrow> py_exception + 'img LBPHRecognizer"
where
  "LBPHRecognizer_init cv cl listing =
     (if ''model.yml'' \<in> set (map entry_name listing)
      then bindE (lbph_read cl) (\<lambda>p. Inr \<lparr>labels = load_labels listing, predict = p\<rparr>)
      else train cv cl listing \<lparr>labels = Map.empty, predict = lbph_create cl\<rparr>)"

subsection \<open>The state of the process and its environment\<close>

text \<open>A row of the table \<open>events\<close> of \<^verbatim>\<open>patrol.db\<close>; \<open>row_id\<close> is the column \<open>id\<close>.\<close>

record event_row =
  row_id :: int
  timestamp :: string
  event_type :: string
  file_path :: "string option"
  person_name :: "string option"

text \<open>
  The table, with the counter SQLite keeps for an \<open>AUTOINCREMENT\<close> column (the largest
  id the table ever held, in \<open>sqlite_sequence\<close>).
\<close>

record event_table =
  table_rows :: "event_row list"
  sqlite_sequence :: int

datatype Picamera2 = Picamera2

text \<open>
  The fields \<open>camera\<close>, \<open>last_motion_time\<close> and \<open>recognizer\<close> are those of the \<open>PiPatrol\<close>
  object; \<open>current_frame\<close> to \<open>stream_thread_running\<close> are the globals of
  \<^verbatim>\<open>web_server.py\<close>; \<open>files\<close> maps the path of every image file to the image written
  to it, \<open>dirs\<close> is the set of the directories, \<open>db\<close> the table \<open>events\<close> once it is
  created.
\<close>

record 'img state =
  camera :: "Picamera2 option"
  last_motion_time :: real
  recognizer :: "'img LBPHRecognizer"
  current_frame :: "'img option"
  encoded_jpeg :: "string option"
  current_label :: string
  live_preview_enabled :: bool
  last_frame_time :: real
  stream_thread_running :: bool
  files :: "string \<rightharpoonup> 'img"
  dirs :: "string set"
  db :: "event_table option"

text \<open>
  What the calls out of the program return or raise while one operation runs. Each
  call site of \<open>time.time()\<close> has a reading of its own (\<open>time_motion\<close>, \<open>time_snapshot\<close>,
  \<open>time_clip\<close> and \<open>time_idle\<close> in \<open>run\<close>, \<open>time_frame\<close> in \<open>set_frame\<close>); \<open>strftime fmt\<close>
  is \<open>datetime.now().strftime(fmt)\<close>; \<open>str_int\<close> and \<open>fmt_1f\<close> are the formatting of
  an integer and of a float with \<open>:.1f\<close> in an f-string; \<open>gpio\<close> tells whether
  \<open>RPi.GPIO\<close> could be imported, \<open>gpio_input_high\<close> is
  \<open>GPIO.input(PIR_PIN) == GPIO.HIGH\<close>, \<open>random_random\<close> is \<open>random.random()\<close>;
  \<open>sqlite_error\<close> is the exception that \<open>sqlite3\<close> raises while the database is
  opened and the statement runs, if any.
\<close>

record 'img env =
  picamera2_new :: "py_exception + Picamera2"
  camera_configure :: "py_exception + unit"
  camera_start :: "py_exception + unit"
  camera_set_controls :: "py_exception + unit"
  camera_stop :: "py_exception + unit"
  camera_close :: "py_exception + unit"
  capture_array :: "py_exception + 'img"
  start_recording :: "string \<Rightarrow> py_exception + unit"
  stop_recording :: "py_exception + unit"
  mkdir :: "string \<Rightarrow> py_exception + unit"
  imwrite :: "string \<Rightarrow> 'img \<Rightarrow> py_exception + bool"
  imread :: "string \<Rightarrow> 'img option"
  time_motion :: real
  time_snapshot :: real
  time_clip :: real
  time_idle :: real
  time_frame :: real
  strftime :: "string \<Rightarrow> string"
  str_int :: "int \<Rightarrow> string"
  fmt_1f :: "real \<Rightarrow> string"
  gpio :: bool
  gpio_input_high :: "py_exception + bool"
  random_random :: real
  sqlite_error :: "py_exception option"
  thread_start :: "py_exception + unit"

text \<open>
  An operation on the state returns its result, or the exception it raises, with the
  state it leaves: what was written before an exception stays written.
\<close>

type_synonym ('img, 'a) operation = "'img state \<Rightarrow> (py_exception + 'a) \<times> 'img state"

definition returnS :: "'a \<Rightarrow> ('img, 'a) operation" where
  "returnS x s = (Inr x, s)"

definition liftS :: "py_exception + 'a \<Rightarrow> ('img, 'a) operation" where
  "liftS m s = (m, s)"

definition bindS :: "('img, 'a) operation \<Rightarrow> ('a \<Rightarrow> ('img, 'b) operation) \<Rightarrow> ('img, 'b) operation" where
  "bindS m f s = (case m s of (Inl e, s') \<Rightarrow> (Inl e, s') | (Inr x, s') \<Rightarrow> f x s')"

definition LIVE_PATH :: string where
  "LIVE_PATH = BASE_DIR @ ''/events/live.jpg''"

text \<open>\<open>p.mkdir(exist_ok=True)\<close>, and with \<open>parents=True\<close> the ancestors as well.\<close>

definition do_mkdir :: "'img env \<Rightarrow> string \<Rightarrow> string list \<Rightarrow> ('img, unit) operation" where
  "do_mkdir e p parents s =
     (case mkdir e p of
        Inl ex \<Rightarrow> (Inl ex, s)
      | Inr u \<Rightarrow> (Inr (), s\<lparr>dirs := insert p (set parents \<union> dirs s)\<rparr>))"

text \<open>\<open>cv2.imwrite(path, img)\<close>: \<open>True\<close> when the file was written.\<close>

definition do_imwrite :: "'img env \<Rightarrow> string \<Rightarrow> 'img \<Rightarrow> ('img, bool) operation" where
  "do_imwrite e path img s =
     (case imwrite e path img of
        Inl ex \<Rightarrow> (Inl ex, s)
      | Inr ok \<Rightarrow> (Inr ok, if ok then s\<lparr>files := (files s)(path \<mapsto> img)\<rparr> else s))"

subsection \<open>The frame broker (\<^verbatim>\<open>web_server.py\<close>)\<close>

text \<open>
  \<open>set_frame(frame, label="Unknown")\<close>: \<open>label_arg\<close> is \<open>None\<close> when the call passes no
  label. The body runs under \<open>camera_lock\<close>, as one step.
\<close>

definition set_frame :: "'img cv2 \<Rightarrow> 'img env \<Rightarrow> 'img \<Rightarrow> string option \<Rightarrow> ('img, unit) operation" where
  "set_frame cv e frame label_arg s =
     (let label = (case label_arg of None \<Rightarrow> ''Unknown'' | Some l \<Rightarrow> l);
          s1 = s\<lparr>current_frame := Some frame, current_label := label\<rparr>
      in case imencode cv frame of
           Inl ex \<Rightarrow> (Inl ex, s1)
         | Inr (ret, buf) \<Rightarrow>
             if ret
             then bindS (do_imwrite e LIVE_PATH frame) (\<lambda>_. returnS ())
                    (s1\<lparr>encoded_jpeg := Some buf, last_frame_time := time_frame e\<rparr>)
             else (Inr (), s1))"

text \<open>The JSON object that \<open>/api/status\<close> returns.\<close>

record status_json =
  status_current_label :: string
  status_live_preview :: bool
  status_last_frame_time :: real

definition status :: "'img state \<Rightarrow> status_json" where
  "status s = \<lparr>status_current_label = current_label s,
               status_live_preview = live_preview_enabled s,
               status_last_frame_time = last_frame_time s\<rparr>"

subsection \<open>The event store\<close>

text \<open>
  \<open>init_database\<close>: \<open>CREATE TABLE IF NOT EXISTS events\<close>; what \<open>sqlite3\<close> raises is not
  caught here.
\<close>

definition init_database :: "'img env \<Rightarrow> ('img, unit) operation" where
  "init_database e s =
     bindS (do_mkdir e BASE_DIR [''/home/pi/Security'', ''/home/pi'', ''/home'']) (\<lambda>_ s1.
       (case sqlite_error e of
          Some ex \<Rightarrow> (Inl ex, s1)
        | None \<Rightarrow>
            (Inr (), case db s1 of
                       None \<Rightarrow> s1\<lparr>db := Some \<lparr>table_rows = [], sqlite_sequence = 0\<rparr>\<rparr>
                     | Some t \<Rightarrow> s1))) s"

text \<open>
  The id SQLite gives a row inserted with no id into a table whose key is
  \<open>INTEGER PRIMARY KEY AUTOINCREMENT\<close>: one more than the largest id the table holds or
  ever held; the insert fails (\<open>SQLITE_FULL\<close>) once that is the largest 64-bit integer.
\<close>

definition largest_id :: "event_table \<Rightarrow> int" where
  "largest_id t = fold max (map row_id (table_rows t)) (sqlite_sequence t)"

definition sqlite_insert ::
  "event_table \<Rightarrow> string \<Rightarrow> string \<Rightarrow> string option \<Rightarrow> string option \<Rightarrow> py_exception + event_table"
where
  "sqlite_insert t ts ty fp pn =
     (if largest_id t \<ge> 9223372036854775807
      then Inl (PyException ''database or disk is full'')
      else Inr \<lparr>table_rows = table_rows t @
                   [\<lparr>row_id = largest_id t + 1, timestamp = ts, event_type = ty,
                     file_path = fp, person_name = pn\<rparr>],
                 sqlite_sequence = largest_id t + 1\<rparr>)"

text \<open>
  \<open>log_event\<close>: whatever is raised while the row is inserted is caught, and the table
  is left as it was.
\<close>

definition log_event ::
  "'img env \<Rightarrow> string \<Rightarrow> string option \<Rightarrow> string option \<Rightarrow> 'img state \<Rightarrow> 'img state"
where
  "log_event e ty fp person s =
     (case sqlite_error e of
        Some ex \<Rightarrow> s
      | None \<Rightarrow>
          (case db s of
             None \<Rightarrow> s
           | Some t \<Rightarrow>
               (case sqlite_insert t (strftime e ''%Y-%m-%d %H:%M:%S'') ty fp person of
                  Inl ex \<Rightarrow> s
                | Inr t' \<Rightarrow> s\<lparr>db := Some t'\<rparr>)))"

text \<open>
  \<open>get_events\<close> of \<^verbatim>\<open>dashboard.py\<close>:
  \<^verbatim>\<open>SELECT id, timestamp, event_type, file_path FROM events ORDER BY id DESC LIMIT 50\<close>.
\<close>

definition get_events :: "event_table \<Rightarrow> (int \<times> string \<times> string \<times> string option) list" where
  "get_events t =
     map (\<lambda>r. (row_id r, timestamp r, event_type r, file_path r))
       (take 50 (rev (sort_key row_id (table_rows t))))"

subsection \<open>The camera and the capture path (class \<open>PiPatrol\<close>)\<close>

definition initialize_camera :: "'img env \<Rightarrow> 'img state \<Rightarrow> 'img state" where
  "initialize_camera e s =
     (case picamera2_new e of
        Inl ex \<Rightarrow> s\<lparr>camera := None\<rparr>
      | Inr cam \<Rightarrow>
          (case bindE (camera_configure e) (\<lambda>_.
                bindE (camera_start e) (\<lambda>_. camera_set_controls e)) of
             Inl ex \<Rightarrow> s\<lparr>camera := None\<rparr>
           | Inr u \<Rightarrow> s\<lparr>camera := Some cam\<rparr>))"

definition stop_camera :: "'img env \<Rightarrow> 'img state \<Rightarrow> 'img state" where
  "stop_camera e s =
     (if camera s \<noteq> None
      then (case bindE (camera_stop e) (\<lambda>_. camera_close e) of
              Inl ex \<Rightarrow> s\<lparr>camera := None\<rparr>
            | Inr u \<Rightarrow> s\<lparr>camera := None\<rparr>)
      else s)"

definition wake_camera :: "'img env \<Rightarrow> 'img state \<Rightarrow> 'img state" where
  "wake_camera e s = (if camera s = None then initialize_camera e s else s)"

text \<open>The loop of \<open>capture_frame\<close> that draws the box and the label of every detection.\<close>

fun annotate :: "'img cv2 \<Rightarrow> 'img env \<Rightarrow> 'img \<Rightarrow> detection list \<Rightarrow> py_exception + 'img" where
  "annotate cv e frame [] = Inr frame"
| "annotate cv e frame ((name, conf, (x, y, w, h)) # detections) =
     (let color = (if name \<noteq> ''Unknown'' then (0, 255, 0) else (0, 0, 255)) in
      bindE (rectangle cv frame (x, y) (x + w, y + h) color) (\<lambda>frame.
      bindE (putText cv frame (name @ '' ('' @ fmt_1f e conf @ '')'') (x, y - 10) color) (\<lambda>frame.
      annotate cv e frame detections)))"

text \<open>The body of the \<open>try\<close> statement of \<open>capture_frame\<close>.\<close>

definition capture_body :: "'img cv2 \<Rightarrow> 'img env \<Rightarrow> ('img, 'img) operation" where
  "capture_body cv e s =
     bindS (liftS (capture_array e)) (\<lambda>frame.
     bindS (liftS (cvtColor cv frame COLOR_RGB2BGR)) (\<lambda>frame.
     bindS (liftS (recognize_faces cv (recognizer s) frame)) (\<lambda>detections.
     bindS (liftS (annotate cv e frame detections)) (\<lambda>frame.
     bindS (do_mkdir e EVENTS_DIR []) (\<lambda>_.
     bindS (do_imwrite e (path_join EVENTS_DIR ''live.jpg'') frame) (\<lambda>_.
     bindS (set_frame cv e frame None) (\<lambda>_.
     returnS frame))))))) s"

text \<open>
  \<open>capture_frame\<close>: \<open>None\<close> without a camera; otherwise the body, with
  \<open>except Exception\<close> turning whatever it raises into \<open>None\<close>.
\<close>

definition capture_frame :: "'img cv2 \<Rightarrow> 'img env \<Rightarrow> ('img, 'img option) operation" where
  "capture_frame cv e s =
     (if camera s = None then (Inr None, s)
      else (case capture_body cv e s of
              (Inl ex, s') \<Rightarrow> (Inr None, s')
            | (Inr frame, s') \<Rightarrow> (Inr (Some frame), s')))"

definition check_pir_motion :: "'img env \<Rightarrow> bool" where
  "check_pir_motion e =
     (if \<not> gpio e then random_random e < 5 / 100
      else (case gpio_input_high e of Inl ex \<Rightarrow> False | Inr high \<Rightarrow> high))"

text \<open>
  \<open>record_clip\<close>, the body of the thread that \<open>run\<close> starts: an exception of
  \<open>mkdir\<close> ends the thread, one of the recording is caught.
\<close>

definition record_clip :: "'img env \<Rightarrow> string \<Rightarrow> ('img, unit) operation" where
  "record_clip e filename s =
     (if camera s = None then (Inr (), s)
      else bindS (do_mkdir e RECORDINGS_DIR []) (\<lambda>_ s1.
             (case bindE (start_recording e (path_join RECORDINGS_DIR filename)) (\<lambda>_.
                     stop_recording e) of
                Inl ex \<Rightarrow> (Inr (), s1)
              | Inr u \<Rightarrow>
                  (Inr (), log_event e ''motion_recorded''
                             (Some (path_join RECORDINGS_DIR filename)) None s1))) s)"

text \<open>\<open>int(x)\<close> on a float: truncation towards zero.\<close>

definition py_int :: "real \<Rightarrow> int" where
  "py_int x = (if 0 \<le> x then \<lfloor>x\<rfloor> else \<lceil>x\<rceil>)"

text \<open>
  One iteration of the \<open>while True\<close> loop of \<open>run\<close>. The environment \<open>e\<close> is the one of
  the loop, \<open>e_clip\<close> the one of the thread of \<open>record_clip\<close>, whose body is run here as
  one step after the thread is started (the loop then sleeps for the duration of the
  clip and a second). The calls of \<open>time.sleep\<close> have no effect on the state.
\<close>

definition run_tick :: "'img cv2 \<Rightarrow> 'img env \<Rightarrow> 'img env \<Rightarrow> ('img, unit) operation" where
  "run_tick cv e e_clip s =
     (if check_pir_motion e
      then bindS (capture_frame cv e) (\<lambda>frame s3.
             (case frame of
                None \<Rightarrow> (Inr (), s3)
              | Some frame \<Rightarrow>
                  bindS (liftS (recognize_faces cv (recognizer s3) frame)) (\<lambda>detections.
                  (let person = (case detections of [] \<Rightarrow> ''Unknown'' | d # ds \<Rightarrow> fst d);
                       img_path = path_join EVENTS_DIR
                         (person @ ''_'' @ str_int e (py_int (time_snapshot e)) @ ''.jpg'')
                   in bindS (do_imwrite e img_path frame) (\<lambda>_ s4.
                      (let s5 = log_event e ''motion_detected'' (Some img_path) (Some person) s4;
                           filename = ''record_'' @ str_int e (py_int (time_clip e)) @ ''.mp4''
                       in (case thread_start e of
                             Inl ex \<Rightarrow> (Inl ex, s5)
                           | Inr u \<Rightarrow> (Inr (), snd (record_clip e_clip filename s5))))))) s3))
             (wake_camera e (s\<lparr>last_motion_time := time_motion e\<rparr>))
      else (Inr (),
            if camera s \<noteq> None \<and> float_sub (time_idle e) (last_motion_time s) > IDLE_TIMEOUT
            then stop_camera e s else s))"

text \<open>The loop of \<open>run\<close> over the environments of its first iterations.\<close>

fun run_ticks :: "'img cv2 \<Rightarrow> ('img env \<times> 'img env) list \<Rightarrow> ('img, unit) operation" where
  "run_ticks cv [] s = (Inr (), s)"
| "run_ticks cv ((e, e_clip) # es) s =
     (case run_tick cv e e_clip s of
        (Inl ex, s') \<Rightarrow> (Inl ex, s')
      | (Inr u, s') \<Rightarrow> run_ticks cv es s')"

subsection \<open>The stream server (\<^verbatim>\<open>web_server.py\<close>)\<close>

definition stream_fps :: real where
  "stream_fps = 15"

text \<open>
  What one iteration of the loop of \<open>generate_stream\<close> reads: the flag
  \<open>live_preview_enabled\<close> at the top of the iteration, the clock, and \<open>encoded_jpeg\<close>
  under the lock. Other threads write the globals between the reads, so the three are
  independent; \<open>observe\<close> gives the readings of an iteration that sees one state.
\<close>

record stream_obs =
  obs_enabled :: bool
  obs_now :: real
  obs_jpeg :: "string option"

definition observe :: "real \<Rightarrow> 'img state \<Rightarrow> stream_obs" where
  "observe now s = \<lparr>obs_enabled = live_preview_enabled s, obs_now = now, obs_jpeg = encoded_jpeg s\<rparr>"

definition CRLF :: string where
  "CRLF = [CHR 0x0D, CHR 0x0A]"

text \<open>
  One iteration: the part it yields, if any, and \<open>last_sent_time\<close> after it. Bytes are
  false when empty.
\<close>

definition stream_iteration :: "stream_obs \<Rightarrow> real \<Rightarrow> string option \<times> real" where
  "stream_iteration ob last_sent_time =
     (if \<not> obs_enabled ob then (None, last_sent_time)
      else if float_sub (obs_now ob) last_sent_time < float_div 1 stream_fps
      then (None, last_sent_time)
      else (case obs_jpeg ob of
              None \<Rightarrow> (None, last_sent_time)
            | Some frame \<Rightarrow>
                if frame \<noteq> []
                then (Some (''--frame'' @ CRLF @ ''Content-Type: image/jpeg'' @ CRLF @ CRLF
                              @ frame @ CRLF), obs_now ob)
                else (None, last_sent_time)))"

text \<open>
  The generator, over the readings of its first iterations: the parts it yields, in
  order. The loop never ends, so the generator is observed on a prefix.
\<close>

fun generate_stream_from :: "real \<Rightarrow> stream_obs list \<Rightarrow> string list" where
  "generate_stream_from last_sent_time [] = []"
| "generate_stream_from last_sent_time (ob # obs) =
     (case stream_iteration ob last_sent_time of
        (None, t) \<Rightarrow> generate_stream_from t obs
      | (Some part, t) \<Rightarrow> part # generate_stream_from t obs)"

definition generate_stream :: "stream_obs list \<Rightarrow> string list" where
  "generate_stream obs = generate_stream_from 0 obs"

text \<open>\<open>/live\<close>: the flag it sets, and the body of the response.\<close>

definition live_feed :: "stream_obs list \<Rightarrow> 'img state \<Rightarrow> string list \<times> 'img state" where
  "live_feed obs s =
     (generate_stream obs,
      if \<not> stream_thread_running s then s\<lparr>stream_thread_running := True\<rparr> else s)"

text \<open>A parsed JSON value, and \<open>bool(v)\<close> on it.\<close>

datatype json =
  JNull | JBool bool | JNumber real | JString string | JArray "json list"
  | JObject "(string \<times> json) list"

fun py_bool :: "json \<Rightarrow> bool" where
  "py_bool JNull = False"
| "py_bool (JBool b) = b"
| "py_bool (JNumber x) = (x \<noteq> 0)"
| "py_bool (JString str) = (str \<noteq> [])"
| "py_bool (JArray xs) = (xs \<noteq> [])"
| "py_bool (JObject kvs) = (kvs \<noteq> [])"

text \<open>
  \<open>/api/toggle_preview\<close> on the parsed body \<open>data\<close>: only a JSON object has \<open>get\<close>, and
  the last of the members of one name counts. The result is the value of
  \<open>live_preview\<close> in the response.
\<close>

definition toggle_preview :: "json \<Rightarrow> ('img, bool) operation" where
  "toggle_preview data s =
     (case data of
        JObject kvs \<Rightarrow>
          (let enabled = (case map_of (rev kvs) ''enable'' of
                            None \<Rightarrow> False | Some v \<Rightarrow> py_bool v)
           in (Inr enabled, s\<lparr>live_preview_enabled := enabled\<rparr>))
      | _ \<Rightarrow> (Inl (PyException ''AttributeError''), s))"



subsection \<open>Concrete instances\<close>

text \<open>
  Instances of the interfaces on which the theorems below are evaluated. An image is
  a list of rows of grey values, \<open>slice_rows\<close> is the slice \<^verbatim>\<open>img[y:y+h, x:x+w]\<close> on it.
  In \<open>demo_cv\<close> every OpenCV call succeeds, the conversions leave the image as it is and
  the cascade finds one face.
\<close>

definition slice_rows :: "'a list list \<Rightarrow> box \<Rightarrow> 'a list list" where
  "slice_rows img b = (case b of (x, y, w, h) \<Rightarrow>
     map (\<lambda>row. take (nat w) (drop (nat x) row)) (take (nat h) (drop (nat y) img)))"

definition demo_cv :: "nat list list cv2" where
  "demo_cv = \<lparr>cvtColor = (\<lambda>img c. Inr img),
              clahe_apply = (\<lambda>clip grid img. Inr img),
              detectMultiScale = (\<lambda>img sf mn ms. Inr [(0, 0, 100, 100)]),
              np_slice = slice_rows,
              resize = (\<lambda>img sz. Inr img),
              rectangle = (\<lambda>img p q c. Inr img),
              putText = (\<lambda>img txt p c. Inr img),
              imencode = (\<lambda>img. Inr (True, ''jpeg''))\<rparr>"

definition demo_frame :: "nat list list" where
  "demo_frame = [[0, 10]]"

text \<open>
  Three recognizers that know \<open>alice\<close> under the label id 0: the classifier of the
  first predicts that id, the classifier of the second an id the label dict does not
  hold (the model file was trained on a corpus with one more person folder), the
  classifier of the third raises.
\<close>

definition alice_recognizer :: "nat list list LBPHRecognizer" where
  "alice_recognizer = \<lparr>labels = [0 \<mapsto> ''alice''], predict = (\<lambda>roi. Inr (0, 45))\<rparr>"

definition stale_recognizer :: "nat list list LBPHRecognizer" where
  "stale_recognizer = \<lparr>labels = [0 \<mapsto> ''alice''], predict = (\<lambda>roi. Inr (1, 45))\<rparr>"

definition failing_recognizer :: "nat list list LBPHRecognizer" where
  "failing_recognizer =
     \<lparr>labels = [0 \<mapsto> ''alice''], predict = (\<lambda>roi. Inl (PyException ''cv2.error''))\<rparr>"

text \<open>
  The region that \<open>recognize_faces\<close> passes to \<open>predict\<close> for the box \<open>b\<close> of the frame:
  the frame is converted and equalized as a whole, then sliced and resized.
\<close>

definition fed_to_predict :: "'img cv2 \<Rightarrow> 'img \<Rightarrow> box \<Rightarrow> py_exception + 'img" where
  "fed_to_predict cv frame b =
     bindE (cvtColor cv frame COLOR_BGR2GRAY) (\<lambda>gray.
     bindE (clahe_apply cv 2 (8, 8) gray) (\<lambda>gray.
     resize cv (np_slice cv gray b) FACE_SIZE))"

text \<open>
  A classifier that predicts the label id 1 with the confidence 45 once it is trained,
  and the same after its model file is read back; a corpus of two person folders as
  \<open>train\<close> lists it before the model file exists, and as a later start of the program
  lists it, the model file that \<open>train\<close> saved between the two folders.
\<close>

definition demo_lbph :: "nat list list lbph" where
  "demo_lbph = \<lparr>lbph_create = (\<lambda>roi. Inl (PyException ''cv2.error'')),
                lbph_train = (\<lambda>faces ids. Inr (\<lambda>roi. Inr (1, 45))),
                lbph_read = Inr (\<lambda>roi. Inr (1, 45)),
                lbph_save = Inr ()\<rparr>"

definition corpus_trained :: "nat list list dir_entry list" where
  "corpus_trained = [Folder ''alice'' [Some demo_frame], Folder ''zoe'' [Some demo_frame]]"

definition corpus_loaded :: "nat list list dir_entry list" where
  "corpus_loaded =
     [Folder ''alice'' [Some demo_frame], PlainFile ''model.yml'', Folder ''zoe'' [Some demo_frame]]"

text \<open>
  An equalization whose result at a pixel depends on the other pixels of its input, as
  the tile histograms of CLAHE make it: the darkest grey value of the image is
  subtracted from every pixel. In \<open>stretch_cv\<close> the cascade finds the second pixel of
  the first row as the face; \<open>echo_recognizer\<close> returns the grey value of the first pixel
  it is given as the confidence.
\<close>

definition stretch :: "nat list list \<Rightarrow> nat list list" where
  "stretch img = map (map (\<lambda>p. p - fold min (concat img) (hd (concat img)))) img"

definition stretch_cv :: "nat list list cv2" where
  "stretch_cv = demo_cv\<lparr>clahe_apply := (\<lambda>clip grid img. Inr (stretch img)),
                        detectMultiScale := (\<lambda>img sf mn ms. Inr [(1, 0, 1, 1)])\<rparr>"

definition echo_recognizer :: "nat list list LBPHRecognizer" where
  "echo_recognizer =
     \<lparr>labels = [0 \<mapsto> ''alice''], predict = (\<lambda>roi. Inr (0, real (hd (hd roi))))\<rparr>"

text \<open>
  An environment in which every call succeeds and the sensor reports motion, the same
  with a camera that raises on \<open>capture_array\<close>, and the state of the program after
  its start: the camera is open, nothing is published, the database is not created.
\<close>

definition demo_env :: "nat list list env" where
  "demo_env = \<lparr>picamera2_new = Inr Picamera2,
               camera_configure = Inr (),
               camera_start = Inr (),
               camera_set_controls = Inr (),
               camera_stop = Inr (),
               camera_close = Inr (),
               capture_array = Inr demo_frame,
               start_recording = (\<lambda>path. Inr ()),
               stop_recording = Inr (),
               mkdir = (\<lambda>path. Inr ()),
               imwrite = (\<lambda>path img. Inr True),
               imread = (\<lambda>path. None),
               time_motion = 100,
               time_snapshot = 100,
               time_clip = 100,
               time_idle = 100,
               time_frame = 100,
               strftime = (\<lambda>fmt. if fmt = ''%Y%m%d%H%M%S'' then ''20261103191400''
                                  else ''2026-11-03 19:14:00''),
               str_int = (\<lambda>i. ''100''),
               fmt_1f = (\<lambda>x. ''45.0''),
               gpio = True,
               gpio_input_high = Inr True,
               random_random = 1 / 2,
               sqlite_error = None,
               thread_start = Inr ()\<rparr>"

definition demo_state :: "nat list list state" where
  "demo_state = \<lparr>camera = Some Picamera2,
                 last_motion_time = 0,
                 recognizer = alice_recognizer,
                 current_frame = None,
                 encoded_jpeg = None,
                 current_label = ''Unknown'',
                 live_preview_enabled = False,
                 last_frame_time = 0,
                 stream_thread_running = False,
                 files = Map.empty,
                 dirs = {},
                 db = None\<rparr>"

definition broken_camera_env :: "nat list list env" where
  "broken_camera_env = demo_env\<lparr>capture_array := Inl (PyException ''camera'')\<rparr>"

text \<open>
  The state once a frame is published and the preview is enabled, an environment in
  which the sensor reports no motion, the state with a frame in memory, and the state
  with the table \<open>events\<close> created.
\<close>

definition published_state :: "nat list list state" where
  "published_state = demo_state\<lparr>current_frame := Some demo_frame, encoded_jpeg := Some ''jpeg'',
                                 live_preview_enabled := True\<rparr>"

definition idle_env :: "nat list list env" where
  "idle_env = demo_env\<lparr>gpio_input_high := Inr False\<rparr>"


definition logging_state :: "nat list list state" where
  "logging_state = demo_state\<lparr>db := Some \<lparr>table_rows = [], sqlite_sequence = 0\<rparr>\<rparr>"

text \<open>
  A tick without motion when the clock reads the double \<open>10.3\<close>, in a state whose last
  motion was at the double \<open>0.3\<close>.
\<close>

definition near_epoch_env :: "nat list list env" where
  "near_epoch_env = idle_env\<lparr>time_idle := 2899192260119757 / 281474976710656\<rparr>"

definition near_epoch_state :: "nat list list state" where
  "near_epoch_state = demo_state\<lparr>last_motion_time := 5404319552844595 / 18014398509481984\<rparr>"

subsection \<open>Invariants of the event store\<close>

text \<open>
  The ids of the rows increase strictly in the order of the inserts, and none exceeds
  the counter of the table. A state keeps the ids of another when its table holds the
  rows of the other, unchanged and in their order, followed by new rows, and its ids
  increase if those of the other do.
\<close>

definition ids_increasing :: "event_table \<Rightarrow> bool" where
  "ids_increasing t \<longleftrightarrow>
     sorted_wrt (<) (map row_id (table_rows t)) \<and>
     (\<forall>r\<in>set (table_rows t). row_id r \<le> sqlite_sequence t)"

definition keeps_ids :: "'img state \<Rightarrow> 'img state \<Rightarrow> bool" where
  "keeps_ids s s' \<longleftrightarrow>
     (\<forall>t. db s = Some t \<and> ids_increasing t \<longrightarrow>
        (\<exists>t' new. db s' = Some t' \<and> table_rows t' = table_rows t @ new \<and> ids_increasing t'))"

section \<open>Properties\<close>

subsection \<open>Results that may be exceptions\<close>

lemma bindE_Inr_iff: "bindE m f = Inr y \<longleftrightarrow> (\<exists>x. m = Inr x \<and> f x = Inr y)"
  by (cases m) (simp_all add: bindE_def)

lemma bindE_Inr [simp]: "bindE (Inr x) f = f x"
  by (simp add: bindE_def)

lemma bindE_Inl [simp]: "bindE (Inl e) f = Inl e"
  by (simp add: bindE_def)

subsection \<open>Recognition: labels, threshold and exceptions\<close>

lemma recognize_loop_Inr:
  "recognize_loop cv r gray faces acc = Inr results \<Longrightarrow>
   \<exists>ds. results = acc @ ds \<and> list_all2 (\<lambda>b d. recognize_one cv r gray b = Inr d) faces ds"
proof (induction faces arbitrary: acc)
  case Nil
  then show ?case by simp
next
  case (Cons b faces)
  from Cons.prems obtain d where d: "recognize_one cv r gray b = Inr d"
    and rest: "recognize_loop cv r gray faces (acc @ [d]) = Inr results"
    by (auto simp: bindE_Inr_iff)
  from Cons.IH [OF rest] obtain ds where "results = (acc @ [d]) @ ds"
    and "list_all2 (\<lambda>b d. recognize_one cv r gray b = Inr d) faces ds" by blast
  with d show ?case by (intro exI [of _ "d # ds"]) simp
qed

lemma recognize_loop_total:
  "\<forall>b\<in>set faces. \<exists>roi. resize cv (np_slice cv gray b) FACE_SIZE = Inr roi \<Longrightarrow>
   \<exists>results. recognize_loop cv r gray faces acc = Inr results"
proof (induction faces arbitrary: acc)
  case Nil
  then show ?case by simp
next
  case (Cons b faces)
  then obtain roi where "resize cv (np_slice cv gray b) FACE_SIZE = Inr roi" by auto
  then have "recognize_one cv r gray b = Inr (classify r roi b)"
    by (simp add: recognize_one_def)
  with Cons show ?case by simp
qed

lemma recognize_one_cases:
  assumes "recognize_one cv r gray b = Inr (name, conf, b')"
  shows "b' = b \<and> (\<exists>roi. resize cv (np_slice cv gray b) FACE_SIZE = Inr roi \<and>
     (case predict r roi of
        Inr (label_id, c) \<Rightarrow> conf = c \<and>
          name = (if c < CONFIDENCE_THRESHOLD then dict_get (labels r) label_id ''Unknown'' else ''Unknown'')
      | Inl e \<Rightarrow> name = ''Unknown'' \<and> conf = 100))"
proof -
  from assms obtain roi where roi: "resize cv (np_slice cv gray b) FACE_SIZE = Inr roi"
    and c: "classify r roi b = (name, conf, b')"
    by (auto simp: recognize_one_def bindE_Inr_iff)
  show ?thesis
  proof (cases "predict r roi")
    case (Inl e)
    with c roi show ?thesis by (auto simp: classify_def)
  next
    case (Inr p)
    obtain label_id cf where p: "p = (label_id, cf)" by (cases p)
    with Inr c have "b' = b \<and> conf = cf \<and>
      name = (if cf < CONFIDENCE_THRESHOLD then dict_get (labels r) label_id ''Unknown'' else ''Unknown'')"
      by (auto simp: classify_def split: if_splits)
    with Inr p roi show ?thesis by auto
  qed
qed

text \<open>
  Claim C1, as the code has it. For every detection \<open>(name, conf, b)\<close> that
  \<open>recognize_faces\<close> returns: when the confidence is at or above
  \<open>Config.CONFIDENCE_THRESHOLD\<close> the label is \<open>Unknown\<close>; when it is strictly below, the
  confidence and a label id were predicted for the resized region of the box in the
  equalized grey frame, and the label is what the label dict holds for that id, or
  \<open>Unknown\<close> when it holds nothing for it.
\<close>

theorem recognize_faces_labels_by_threshold:
  assumes "recognize_faces cv r frame = Inr results" and "(name, conf, b) \<in> set results"
  shows "(CONFIDENCE_THRESHOLD \<le> conf \<longrightarrow> name = ''Unknown'') \<and>
         (conf < CONFIDENCE_THRESHOLD \<longrightarrow>
            (\<exists>g gray roi label_id.
               cvtColor cv frame COLOR_BGR2GRAY = Inr g \<and> clahe_apply cv 2 (8, 8) g = Inr gray \<and>
               resize cv (np_slice cv gray b) FACE_SIZE = Inr roi \<and>
               predict r roi = Inr (label_id, conf) \<and>
               name = dict_get (labels r) label_id ''Unknown''))"
proof -
  from assms(1) obtain g gray faces where
    g: "cvtColor cv frame COLOR_BGR2GRAY = Inr g" "clahe_apply cv 2 (8, 8) g = Inr gray" and
    loop: "recognize_loop cv r gray faces [] = Inr results"
    by (auto simp: recognize_faces_def bindE_Inr_iff)
  from recognize_loop_Inr [OF loop]
  have all: "list_all2 (\<lambda>b d. recognize_one cv r gray b = Inr d) faces results" by simp
  from assms(2) obtain i where i: "i < length results" "results ! i = (name, conf, b)"
    by (auto simp: in_set_conv_nth)
  with all have one: "recognize_one cv r gray (faces ! i) = Inr (name, conf, b)"
    by (auto simp: list_all2_conv_all_nth)
  from recognize_one_cases [OF one] obtain roi where
    b: "b = faces ! i" and
    roi: "resize cv (np_slice cv gray (faces ! i)) FACE_SIZE = Inr roi" and
    c: "case predict r roi of
          Inr (label_id, c) \<Rightarrow> conf = c \<and>
            name = (if c < CONFIDENCE_THRESHOLD then dict_get (labels r) label_id ''Unknown'' else ''Unknown'')
        | Inl e \<Rightarrow> name = ''Unknown'' \<and> conf = 100"
    by blast
  show ?thesis
  proof (cases "predict r roi")
    case (Inl e)
    with c show ?thesis by (simp add: CONFIDENCE_THRESHOLD_def)
  next
    case (Inr p)
    obtain label_id cf where p: "p = (label_id, cf)" by (cases p)
    from c Inr p have cf: "conf = cf" and
      n: "name = (if cf < CONFIDENCE_THRESHOLD then dict_get (labels r) label_id ''Unknown'' else ''Unknown'')"
      by simp_all
    show ?thesis
    proof (cases "conf < CONFIDENCE_THRESHOLD")
      case True
      with cf n have "name = dict_get (labels r) label_id ''Unknown''" by simp
      with g roi b Inr p cf True show ?thesis by auto
    next
      case False
      with cf n show ?thesis by simp
    qed
  qed
qed

text \<open>
  The theorem at a frame with one face, which the classifier knows as \<open>alice\<close> with
  the confidence 45, and with the confidence 85.
\<close>

lemma demo_results:
  "recognize_faces demo_cv alice_recognizer demo_frame = Inr [(''alice'', 45, (0, 0, 100, 100))]"
  by (simp add: recognize_faces_def demo_cv_def alice_recognizer_def recognize_one_def
      classify_def dict_get_def CONFIDENCE_THRESHOLD_def)

lemma far_results:
  "recognize_faces demo_cv (alice_recognizer\<lparr>predict := (\<lambda>roi. Inr (0, 85))\<rparr>) demo_frame =
     Inr [(''Unknown'', 85, (0, 0, 100, 100))]"
  by (simp add: recognize_faces_def demo_cv_def alice_recognizer_def recognize_one_def
      classify_def dict_get_def CONFIDENCE_THRESHOLD_def)

theorem recognize_faces_labels_by_threshold_witness:
  "recognize_faces demo_cv alice_recognizer demo_frame = Inr [(''alice'', 45, (0, 0, 100, 100))] \<and>
   (45 :: real) < CONFIDENCE_THRESHOLD \<and>
   (\<exists>g gray roi label_id.
      cvtColor demo_cv demo_frame COLOR_BGR2GRAY = Inr g \<and> clahe_apply demo_cv 2 (8, 8) g = Inr gray \<and>
      resize demo_cv (np_slice demo_cv gray (0, 0, 100, 100)) FACE_SIZE = Inr roi \<and>
      predict alice_recognizer roi = Inr (label_id, 45) \<and>
      ''alice'' = dict_get (labels alice_recognizer) label_id ''Unknown'') \<and>
   recognize_faces demo_cv (alice_recognizer\<lparr>predict := (\<lambda>roi. Inr (0, 85))\<rparr>) demo_frame =
     Inr [(''Unknown'', 85, (0, 0, 100, 100))] \<and>
   CONFIDENCE_THRESHOLD \<le> (85 :: real)"
  using recognize_faces_labels_by_threshold [OF demo_results, of "''alice''" 45 "(0, 0, 100, 100)"]
    recognize_faces_labels_by_threshold [OF far_results, of "''Unknown''" 85 "(0, 0, 100, 100)"]
    demo_results far_results
  by (simp add: CONFIDENCE_THRESHOLD_def)

text \<open>
  Claim C1 as stated fails: the classifier predicts the label id 1 with the confidence
  45, below the threshold 70, the label dict has no entry for 1, and the detection is
  labelled \<open>Unknown\<close>.
\<close>

theorem recognize_faces_below_threshold_unknown:
  "recognize_faces demo_cv stale_recognizer demo_frame = Inr [(''Unknown'', 45, (0, 0, 100, 100))] \<and>
   (45 :: real) < CONFIDENCE_THRESHOLD"
  by (simp add: recognize_faces_def demo_cv_def stale_recognizer_def recognize_one_def
      classify_def dict_get_def CONFIDENCE_THRESHOLD_def)


text \<open>
  Claim C10. Once the frame is converted and equalized and the cascade has returned
  its regions, and \<open>cv2.resize\<close> succeeds on each of them (a region of the cascade is at
  least 80 by 80 pixels, and \<open>cv2.resize\<close> only refuses an empty image),
  \<open>recognize_faces\<close> returns, with one entry per region in the order of the regions,
  whatever \<open>predict\<close> returns or raises; and the entry of a region on which \<open>predict\<close>
  raises is \<open>Unknown\<close> with the confidence 100.0.
\<close>

theorem recognize_faces_total_over_regions:
  assumes "cvtColor cv frame COLOR_BGR2GRAY = Inr g"
    and "clahe_apply cv 2 (8, 8) g = Inr gray"
    and "detectMultiScale cv gray (11 / 10) 4 (80, 80) = Inr faces"
    and "\<forall>b\<in>set faces. \<exists>roi. resize cv (np_slice cv gray b) FACE_SIZE = Inr roi"
  shows "\<exists>results. recognize_faces cv r frame = Inr results \<and>
           length results = length faces \<and>
           map (snd \<circ> snd) results = faces \<and>
           (\<forall>i<length faces. \<forall>roi e.
              resize cv (np_slice cv gray (faces ! i)) FACE_SIZE = Inr roi \<and> predict r roi = Inl e \<longrightarrow>
              results ! i = (''Unknown'', 100, faces ! i))"
proof -
  from recognize_loop_total [OF assms(4)] obtain results where
    loop: "recognize_loop cv r gray faces [] = Inr results" by blast
  from recognize_loop_Inr [OF loop]
  have all: "list_all2 (\<lambda>b d. recognize_one cv r gray b = Inr d) faces results" by simp
  then have len: "length results = length faces" by (simp add: list_all2_lengthD)
  have one: "recognize_one cv r gray (faces ! i) = Inr (results ! i)" if "i < length faces" for i
    using all that by (simp add: list_all2_conv_all_nth)
  have box: "snd (snd (results ! i)) = faces ! i" if "i < length faces" for i
  proof -
    obtain name conf b where d: "results ! i = (name, conf, b)" by (cases "results ! i")
    with one [OF that] recognize_one_cases [of cv r gray "faces ! i" name conf b]
    show ?thesis by simp
  qed
  have boxes: "map (snd \<circ> snd) results = faces"
    using len box by (auto simp: list_eq_iff_nth_eq)
  have exc: "results ! i = (''Unknown'', 100, faces ! i)"
    if "i < length faces" "resize cv (np_slice cv gray (faces ! i)) FACE_SIZE = Inr roi"
      "predict r roi = Inl e" for i roi e
    using one [OF that(1)] that(2,3) by (simp add: recognize_one_def classify_def)
  from assms(1-3) loop have "recognize_faces cv r frame = Inr results"
    by (simp add: recognize_faces_def)
  with len boxes exc show ?thesis by blast
qed

text \<open>The theorem at a frame with one face, on which \<open>predict\<close> raises.\<close>

theorem recognize_faces_total_over_regions_witness:
  "recognize_faces demo_cv failing_recognizer demo_frame = Inr [(''Unknown'', 100, (0, 0, 100, 100))] \<and>
   predict failing_recognizer (slice_rows demo_frame (0, 0, 100, 100)) = Inl (PyException ''cv2.error'')"
proof -
  from recognize_faces_total_over_regions [of demo_cv demo_frame demo_frame demo_frame
      "[(0, 0, 100, 100)]" failing_recognizer]
  obtain results where r: "recognize_faces demo_cv failing_recognizer demo_frame = Inr results"
    and len: "length results = 1" and first: "results ! 0 = (''Unknown'', 100, (0, 0, 100, 100))"
    by (auto simp: demo_cv_def failing_recognizer_def)
  from len first have "results = [(''Unknown'', 100, (0, 0, 100, 100))]"
    by (cases results) auto
  with r show ?thesis by (simp add: failing_recognizer_def)
qed

subsection \<open>Float rounding\<close>

text \<open>
  The exponent of a number between two powers of two, and the rounding of a number
  that lies less than half a unit above a double.
\<close>

lemma float_ulp_eq:
  assumes "2 powi k \<le> \<bar>x\<bar>" and "\<bar>x\<bar> < 2 powi (k + 1)" and "- 1022 \<le> k"
  shows "float_ulp x = 2 powi (k - 52)"
proof -
  have "(0::real) < 2 powi k" by simp
  with assms(1) have pos: "0 < \<bar>x\<bar>" by linarith
  have p: "(2::real) powr real_of_int k = 2 powi k"
    "(2::real) powr real_of_int (k + 1) = 2 powi (k + 1)"
    by (rule powr_real_of_int'; simp)+
  have "\<lfloor>log 2 \<bar>x\<bar>\<rfloor> = k"
    using assms(1,2) pos p
    by (subst floor_log_eq_powr_iff) simp_all
  with assms(3) show ?thesis by (simp add: float_ulp_def)
qed

lemma round_half_even_eq:
  assumes "of_int n \<le> r" and "r - of_int n < 1 / 2"
  shows "round_half_even r = n"
proof -
  from assms have "\<lfloor>r\<rfloor> = n" by linarith
  with assms(2) show ?thesis by (simp add: round_half_even_def)
qed

lemma round_half_even_int [simp]: "round_half_even (of_int n) = n"
  by (simp add: round_half_even_def)

lemma float_round_eq:
  assumes "2 powi k \<le> \<bar>x\<bar>" and "\<bar>x\<bar> < 2 powi (k + 1)" and "- 1022 \<le> k"
    and "of_int n \<le> x * 2 powi (52 - k)" and "x * 2 powi (52 - k) - of_int n < 1 / 2"
  shows "float_round x = of_int n * 2 powi (k - 52)"
proof -
  have u: "float_ulp x = 2 powi (k - 52)" using assms(1-3) by (rule float_ulp_eq)
  have "x / 2 powi (k - 52) = x * 2 powi (52 - k)"
    by (simp add: power_int_diff field_simps)
  with assms(4,5) have "round_half_even (x / float_ulp x) = n"
    unfolding u by (intro round_half_even_eq) simp_all
  moreover have "(0::real) < 2 powi k" by simp
  with assms(1) have "x \<noteq> 0" by (cases "x = 0") simp_all
  ultimately show ?thesis by (simp add: float_round_def u)
qed

text \<open>
  The doubles \<open>10.3\<close> and \<open>0.3\<close> differ by 10 and 13 parts in \<open>2^54\<close>; their float
  difference is 10.
\<close>

lemma float_sub_near_epoch:
  "float_sub (2899192260119757 / 281474976710656) (5404319552844595 / 18014398509481984) = 10"
proof -
  have "float_round (10 + 13 / 18014398509481984) = of_int 5629499534213120 * 2 powi (3 - 52)"
    by (rule float_round_eq) (simp_all add: power_int_minus)
  then show ?thesis
    by (simp add: float_sub_def power_int_minus)
qed

lemma float_round_1: "float_round 1 = 1"
proof -
  have "float_round 1 = of_int 4503599627370496 * 2 powi (0 - 52)"
    by (rule float_round_eq) (simp_all add: power_int_minus)
  then show ?thesis by (simp add: power_int_minus)
qed


text \<open>
  Rounding is monotone at the integers, and it exceeds an even integer exactly when
  the number exceeds the integer by more than a half.
\<close>

lemma round_half_even_mono_int:
  "of_int n \<le> r \<Longrightarrow> n \<le> round_half_even r" "r \<le> of_int n \<Longrightarrow> round_half_even r \<le> n"
proof -
  show "n \<le> round_half_even r" if "of_int n \<le> r"
  proof -
    from that have "n \<le> \<lfloor>r\<rfloor>" by linarith
    then show ?thesis by (auto simp: round_half_even_def Let_def)
  qed
  show "round_half_even r \<le> n" if "r \<le> of_int n"
  proof (cases "r = of_int n")
    case True
    then show ?thesis by simp
  next
    case False
    with that have "\<lfloor>r\<rfloor> < n" by linarith
    then show ?thesis by (auto simp: round_half_even_def Let_def)
  qed
qed

lemma round_half_even_gt_even:
  assumes "even n"
  shows "n < round_half_even r \<longleftrightarrow> of_int n + 1 / 2 < r"
proof
  assume gt: "of_int n + 1 / 2 < r"
  then have f: "n \<le> \<lfloor>r\<rfloor>" by linarith
  show "n < round_half_even r"
  proof (cases "\<lfloor>r\<rfloor> = n")
    case True
    with gt have "1 / 2 < r - of_int \<lfloor>r\<rfloor>" by simp
    with True show ?thesis by (simp add: round_half_even_def Let_def)
  next
    case False
    with f have "n < \<lfloor>r\<rfloor>" by simp
    then show ?thesis by (auto simp: round_half_even_def Let_def)
  qed
next
  assume lt: "n < round_half_even r"
  show "of_int n + 1 / 2 < r"
  proof (rule ccontr)
    assume "\<not> of_int n + 1 / 2 < r"
    then have le: "r \<le> of_int n + 1 / 2" by simp
    then have f: "\<lfloor>r\<rfloor> \<le> n" by linarith
    have "round_half_even r \<le> n"
    proof (cases "\<lfloor>r\<rfloor> = n")
      case True
      with le have "r - of_int \<lfloor>r\<rfloor> \<le> 1 / 2" by simp
      with True assms show ?thesis by (auto simp: round_half_even_def Let_def)
    next
      case False
      with f have "\<lfloor>r\<rfloor> < n" by simp
      then show ?thesis by (auto simp: round_half_even_def Let_def)
    qed
    with lt show False by simp
  qed
qed

lemma floor_log2_bounds:
  assumes "0 < x"
  shows "2 powi \<lfloor>log 2 x\<rfloor> \<le> x" "x < 2 powi (\<lfloor>log 2 x\<rfloor> + 1)"
proof -
  have p: "(2::real) powr real_of_int k = 2 powi k" for k
    by (rule powr_real_of_int'; simp)
  from assms have "2 powr real_of_int \<lfloor>log 2 x\<rfloor> \<le> x \<and> x < 2 powr real_of_int (\<lfloor>log 2 x\<rfloor> + 1)"
    by (subst floor_log_eq_powr_iff [symmetric]) simp_all
  then show "2 powi \<lfloor>log 2 x\<rfloor> \<le> x" "x < 2 powi (\<lfloor>log 2 x\<rfloor> + 1)"
    by (simp_all only: p)
qed

text \<open>
  A number rounds to a double above 10 exactly when it exceeds 10 by more than half the
  distance to the next double, \<open>2^-50\<close>.
\<close>

lemma float_round_gt_10_iff: "10 < float_round x \<longleftrightarrow> 10 + 1 / 2 ^ 50 < x"
proof -
  consider (neg) "x \<le> 0" | (small) "0 < x" "x < 8" | (mid) "8 \<le> x" "x < 16" | (big) "16 \<le> x"
    by linarith
  then show ?thesis
  proof cases
    case neg
    have "float_round x \<le> 0"
    proof (cases "x = 0")
      case True
      then show ?thesis by (simp add: float_round_def)
    next
      case False
      have u: "0 < float_ulp x" by (simp add: float_ulp_def)
      with neg have "x / float_ulp x \<le> of_int 0" by (simp add: divide_nonpos_pos)
      then have "round_half_even (x / float_ulp x) \<le> 0" by (rule round_half_even_mono_int)
      with u False show ?thesis
        by (simp add: float_round_def mult_le_0_iff)
    qed
    with neg show ?thesis by auto
  next
    case small
    define k where "k = \<lfloor>log 2 \<bar>x\<bar>\<rfloor>"
    define m where "m = max k (- 1022)"
    from small have ax: "\<bar>x\<bar> = x" by simp
    from floor_log2_bounds [of x] small have b: "2 powi k \<le> x" "x < 2 powi (k + 1)"
      by (simp_all add: k_def ax)
    have "k < 3"
    proof (rule ccontr)
      assume "\<not> k < 3"
      then have "(2::real) powi 3 \<le> 2 powi k" by (intro power_int_increasing) simp_all
      with b(1) small(2) show False by simp
    qed
    then have m3: "m + 1 \<le> 3" by (simp add: m_def)
    have u: "float_ulp x = 2 powi (m - 52)" by (simp add: float_ulp_def k_def m_def)
    have "(2::real) powi (k + 1) \<le> 2 powi (m + 1)"
      by (intro power_int_increasing) (simp_all add: m_def)
    with b(2) have "x < 2 powi (m + 1)" by simp
    then have "x / 2 powi (m - 52) < 2 powi (m + 1) / 2 powi (m - 52)"
      by (simp add: divide_strict_right_mono)
    also have "(2::real) powi (m + 1) / 2 powi (m - 52) = 2 powi 53"
      by (simp add: power_int_diff [symmetric])
    finally have "x / 2 powi (m - 52) \<le> of_int (2 ^ 53)" by simp
    then have r: "round_half_even (x / 2 powi (m - 52)) \<le> 2 ^ 53"
      by (rule round_half_even_mono_int)
    have "float_round x = 2 powi (m - 52) * of_int (round_half_even (x / 2 powi (m - 52)))"
      using small by (simp add: float_round_def u)
    also have "\<dots> \<le> 2 powi (m - 52) * of_int (2 ^ 53)"
      using r by (intro mult_left_mono) (simp_all del: of_int_power of_int_numeral)
    also have "\<dots> = 2 powi (m - 52) * 2 powi 53" by simp
    also have "\<dots> = 2 powi (m + 1)" using power_int_add [of "2::real" "m - 52" 53] by (simp add: add.commute)
    also have "\<dots> \<le> 2 powi 3" using m3 by (intro power_int_increasing) simp_all
    finally have "float_round x \<le> 8" by simp
    with small show ?thesis by auto
  next
    case mid
    then have ax: "\<bar>x\<bar> = x" by simp
    have u: "float_ulp x = 2 powi (3 - 52)"
      using mid by (intro float_ulp_eq) (simp_all add: ax)
    have y: "x / 2 powi (3 - 52) = x * 2 ^ 49" by (simp add: power_int_minus)
    have fr: "float_round x = of_int (round_half_even (x * 2 ^ 49)) / 2 ^ 49"
      using mid by (simp add: float_round_def u y power_int_minus)
    have "10 < float_round x \<longleftrightarrow> (5629499534213120::int) < round_half_even (x * 2 ^ 49)"
      unfolding fr by (simp add: field_simps)
    also have "\<dots> \<longleftrightarrow> of_int 5629499534213120 + 1 / 2 < x * 2 ^ 49"
      by (rule round_half_even_gt_even) simp
    also have "\<dots> \<longleftrightarrow> 10 + 1 / 2 ^ 50 < x" by (simp add: field_simps)
    finally show ?thesis .
  next
    case big
    define k where "k = \<lfloor>log 2 \<bar>x\<bar>\<rfloor>"
    from big have ax: "\<bar>x\<bar> = x" and pos: "0 < x" by simp_all
    from floor_log2_bounds [of x] pos have b: "2 powi k \<le> x" "x < 2 powi (k + 1)"
      by (simp_all add: k_def ax)
    have k4: "4 \<le> k"
    proof (rule ccontr)
      assume "\<not> 4 \<le> k"
      then have "(2::real) powi (k + 1) \<le> 2 powi 4" by (intro power_int_increasing) simp_all
      with b(2) big show False by simp
    qed
    then have u: "float_ulp x = 2 powi (k - 52)" by (simp add: float_ulp_def k_def)
    have "2 powi k / 2 powi (k - 52) \<le> x / 2 powi (k - 52)"
      using b(1) by (simp add: divide_right_mono)
    moreover have "(2::real) powi k / 2 powi (k - 52) = 2 powi 52"
      by (simp add: power_int_diff [symmetric])
    ultimately have "of_int (2 ^ 52) \<le> x / 2 powi (k - 52)" by simp
    then have r: "2 ^ 52 \<le> round_half_even (x / 2 powi (k - 52))"
      by (rule round_half_even_mono_int)
    have "(2::real) powi 4 \<le> 2 powi k" using k4 by (intro power_int_increasing) simp_all
    also have "\<dots> = 2 powi (k - 52) * 2 powi 52"
      using power_int_add [of "2::real" "k - 52" 52] by (simp add: add.commute)
    also have "\<dots> = 2 powi (k - 52) * of_int (2 ^ 52)" by simp
    also have "\<dots> \<le> 2 powi (k - 52) * of_int (round_half_even (x / 2 powi (k - 52)))"
      using r by (intro mult_left_mono) (simp_all del: of_int_power of_int_numeral)
    also have "\<dots> = float_round x" using pos by (simp add: float_round_def u)
    finally have "16 \<le> float_round x" by simp
    with big show ?thesis by auto
  qed
qed

text \<open>The float \<open>1 / 15\<close>.\<close>

lemma float_div_1_15: "float_div 1 15 = 4803839602528529 / 72057594037927936"
proof -
  have "float_round (1 / 15) = of_int 4803839602528529 * 2 powi (- 4 - 52)"
    by (rule float_round_eq) (simp_all add: power_int_minus)
  then show ?thesis by (simp add: float_div_def power_int_minus)
qed

subsection \<open>Path joining\<close>

lemma split_slash_nonempty [simp]: "split_slash p \<noteq> []"
  by (induction p) (auto split: list.splits)

lemma split_slash_plain: "CHR ''/'' \<notin> set f \<Longrightarrow> split_slash f = [f]"
  by (induction f) auto

lemma split_slash_append:
  "split_slash (a @ CHR ''/'' # b) = split_slash a @ split_slash b"
  by (induction a) (auto split: list.splits)

lemma join_slash_snoc: "ws \<noteq> [] \<Longrightarrow> join_slash (ws @ [f]) = join_slash ws @ ''/'' @ f"
  by (induction ws rule: join_slash.induct) auto

lemma path_join_plain:
  assumes "CHR ''/'' \<notin> set f" and "f \<noteq> []" and "f \<noteq> ''.''"
    and "posix_str d = d" and "d = CHR ''/'' # ch # d'" and "ch \<noteq> CHR ''/''"
    and "filter (\<lambda>w. w \<noteq> [] \<and> w \<noteq> ''.'') (split_slash d) \<noteq> []"
  shows "path_join d f = d @ ''/'' @ f"
proof -
  let ?keep = "\<lambda>w. w \<noteq> [] \<and> w \<noteq> ''.''"
  from assms(1,2) obtain c cs where f: "f = c # cs" "c \<noteq> CHR ''/''" by (cases f) auto
  have root: "posix_root (d @ ''/'' @ f) = ''/''" "posix_root d = ''/''"
    using assms(5,6) by (simp_all add: posix_root_def)
  have parts: "filter ?keep (split_slash (d @ ''/'' @ f)) = filter ?keep (split_slash d) @ [f]"
    using assms(1-3) by (simp add: split_slash_append split_slash_plain)
  have "posix_str (d @ ''/'' @ f) = ''/'' @ join_slash (filter ?keep (split_slash d) @ [f])"
    unfolding posix_str_def Let_def root parts by simp
  also have "\<dots> = (''/'' @ join_slash (filter ?keep (split_slash d))) @ ''/'' @ f"
    using assms(7) by (simp add: join_slash_snoc)
  also have "''/'' @ join_slash (filter ?keep (split_slash d)) = d"
    using assms(4,7) root(2) by (simp add: posix_str_def Let_def)
  finally show ?thesis using f by (simp add: path_join_def)
qed


lemma path_join_EVENTS_DIR:
  "CHR ''/'' \<notin> set f \<Longrightarrow> f \<noteq> [] \<Longrightarrow> f \<noteq> ''.'' \<Longrightarrow> path_join EVENTS_DIR f = EVENTS_DIR @ ''/'' @ f"
  by (rule path_join_plain [where ch = "CHR ''h''"])
     (simp_all add: EVENTS_DIR_def BASE_DIR_def posix_str_def posix_root_def)

lemma path_join_RECORDINGS_DIR:
  "CHR ''/'' \<notin> set f \<Longrightarrow> f \<noteq> [] \<Longrightarrow> f \<noteq> ''.'' \<Longrightarrow>
   path_join RECORDINGS_DIR f = RECORDINGS_DIR @ ''/'' @ f"
  by (rule path_join_plain [where ch = "CHR ''h''"])
     (simp_all add: RECORDINGS_DIR_def BASE_DIR_def posix_str_def posix_root_def)

subsection \<open>The label mapping of \<open>train\<close> and of \<open>_load_labels\<close>\<close>

text \<open>
  \<open>_load_labels\<close> gives a directory the position it has in the listing among all the
  entries; \<open>train\<close> gives it the position it has among the directories.
\<close>

lemma fold_enumerate_labels:
  "fold (\<lambda>(i, folder) d. if is_dir folder then d(int i \<mapsto> entry_name folder) else d)
     (enumerate n listing) d0 k =
   (if int n \<le> k \<and> k < int n + int (length listing) \<and> is_dir (listing ! nat (k - int n))
    then Some (entry_name (listing ! nat (k - int n))) else d0 k)"
proof (induction listing arbitrary: n d0)
  case Nil
  then show ?case by auto
next
  case (Cons e listing)
  have step: "nat (k - int n) = Suc (nat (k - int (Suc n)))" if "int n < k"
    using that by linarith
  show ?case
  proof (cases "int n < k")
    case True
    with step show ?thesis by (simp add: Cons.IH [of "Suc n"])
  next
    case False
    then show ?thesis by (auto simp: Cons.IH [of "Suc n"])
  qed
qed

lemma load_labels_nth:
  "load_labels listing k =
   (if 0 \<le> k \<and> k < int (length listing) \<and> is_dir (listing ! nat k)
    then Some (entry_name (listing ! nat k)) else None)"
  using fold_enumerate_labels [of 0 listing Map.empty k] by (simp add: load_labels_def)

lemma train_folders_labels:
  "train_folders cv listing n labs faces ids = Inr (labs', faces', ids') \<Longrightarrow>
   labs' k =
   (if n \<le> k \<and> k < n + int (length (filter is_dir listing))
    then Some (entry_name (filter is_dir listing ! nat (k - n))) else labs k)"
proof (induction cv listing n labs faces ids rule: train_folders.induct)
  case (1 cv label_id labs faces ids)
  then show ?case by auto
next
  case (2 cv n listing label_id labs faces ids)
  then show ?case by simp
next
  case (3 cv person_name imgs listing label_id labs faces ids)
  from "3.prems" obtain f i where
    imgs: "train_images cv imgs label_id faces ids = Inr (f, i)" and
    rest: "train_folders cv listing (label_id + 1) (labs(label_id \<mapsto> person_name)) f i =
             Inr (labs', faces', ids')"
    by (auto simp: bindE_Inr_iff)
  note IH = "3.IH" [OF rest]
  have step: "nat (k - label_id) = Suc (nat (k - (label_id + 1)))" if "label_id < k"
    using that by linarith
  show ?case
  proof (cases "label_id < k")
    case True
    with step IH show ?thesis by simp
  next
    case False
    with IH show ?thesis by auto
  qed
qed

lemma train_labels:
  assumes "train cv cl listing r = Inr r'"
  shows "labels r' k =
   (if 0 \<le> k \<and> k < int (length (filter is_dir listing))
    then Some (entry_name (filter is_dir listing ! nat k)) else None)"
proof -
  from assms obtain labs faces ids where
    t: "train_folders cv listing 0 Map.empty [] [] = Inr (labs, faces, ids)" and
    l: "labels r' = labs"
    by (auto simp: train_def bindE_Inr_iff split: if_splits)
  from train_folders_labels [OF t, of k] l show ?thesis by simp
qed

text \<open>
  The two mappings are equal when no entry that is not a directory comes before a
  directory in the listing.
\<close>

lemma load_labels_eq_train_if_folders_first:
  assumes "train cv cl (folders @ others) r = Inr r'"
    and "\<forall>e\<in>set folders. is_dir e" and "\<forall>e\<in>set others. \<not> is_dir e"
  shows "load_labels (folders @ others) = labels r'"
proof
  fix k
  from assms(2,3) have f: "filter is_dir (folders @ others) = folders" by simp
  have tl: "labels r' k =
    (if 0 \<le> k \<and> k < int (length folders) then Some (entry_name (folders ! nat k)) else None)"
    using train_labels [OF assms(1), of k] unfolding f .
  show "load_labels (folders @ others) k = labels r' k"
  proof (cases "0 \<le> k \<and> k < int (length folders)")
    case True
    then have "nat k < length folders" by linarith
    with True assms(2) show ?thesis
      by (simp add: load_labels_nth tl nth_append)
  next
    case False
    have "\<not> is_dir ((folders @ others) ! nat k)"
      if "0 \<le> k" "k < int (length (folders @ others))"
    proof -
      from False that have "length folders \<le> nat k" "nat k - length folders < length others"
        by auto
      with assms(3) show ?thesis by (simp add: nth_append)
    qed
    with False show ?thesis
      by (auto simp: load_labels_nth tl)
  qed
qed

text \<open>
  Claim C2 fails on the code. \<open>train\<close> on the corpus of the person folders \<open>alice\<close> and
  \<open>zoe\<close> maps the label id 1 to \<open>zoe\<close>, whether the model file is listed or not. On the
  next start the listing holds the model file that \<open>train\<close> saved into \<open>faces_dir\<close>,
  between the two folders, and \<open>_load_labels\<close> maps 2 to \<open>zoe\<close> and nothing to 1: a face
  that the fresh recognizer reports as \<open>zoe\<close> is reported as \<open>Unknown\<close> by the loaded one.
\<close>

theorem loaded_labels_differ_from_trained:
  "(case LBPHRecognizer_init demo_cv demo_lbph corpus_trained of
      Inr r \<Rightarrow> labels r 0 = Some ''alice'' \<and> labels r 1 = Some ''zoe'' \<and>
        recognize_faces demo_cv r demo_frame = Inr [(''zoe'', 45, (0, 0, 100, 100))]
    | Inl ex \<Rightarrow> False) \<and>
   (case train demo_cv demo_lbph corpus_loaded \<lparr>labels = Map.empty, predict = lbph_create demo_lbph\<rparr> of
      Inr r \<Rightarrow> labels r 0 = Some ''alice'' \<and> labels r 1 = Some ''zoe''
    | Inl ex \<Rightarrow> False) \<and>
   load_labels corpus_loaded 0 = Some ''alice'' \<and>
   load_labels corpus_loaded 1 = None \<and>
   load_labels corpus_loaded 2 = Some ''zoe'' \<and>
   (case LBPHRecognizer_init demo_cv demo_lbph corpus_loaded of
      Inr r \<Rightarrow> labels r = load_labels corpus_loaded \<and>
        recognize_faces demo_cv r demo_frame = Inr [(''Unknown'', 45, (0, 0, 100, 100))]
    | Inl ex \<Rightarrow> False)"
  by (simp add: LBPHRecognizer_init_def train_def corpus_trained_def corpus_loaded_def
      demo_lbph_def demo_cv_def preprocess_face_def load_labels_def enumerate_eq_zip
      recognize_faces_def recognize_one_def classify_def dict_get_def CONFIDENCE_THRESHOLD_def
      upt_rec)

subsection \<open>Preprocessing at detect time and at train time\<close>

text \<open>Every detection is the classification of the region \<open>fed_to_predict\<close> of its box.\<close>

lemma recognize_faces_feeds:
  assumes "recognize_faces cv r frame = Inr results" and "d \<in> set results"
  shows "\<exists>roi. fed_to_predict cv frame (snd (snd d)) = Inr roi \<and> d = classify r roi (snd (snd d))"
proof -
  from assms(1) obtain g gray faces where
    g: "cvtColor cv frame COLOR_BGR2GRAY = Inr g" "clahe_apply cv 2 (8, 8) g = Inr gray" and
    loop: "recognize_loop cv r gray faces [] = Inr results"
    by (auto simp: recognize_faces_def bindE_Inr_iff)
  from recognize_loop_Inr [OF loop]
  have all: "list_all2 (\<lambda>b d. recognize_one cv r gray b = Inr d) faces results" by simp
  from assms(2) obtain i where i: "i < length results" "results ! i = d"
    by (auto simp: in_set_conv_nth)
  with all have one: "recognize_one cv r gray (faces ! i) = Inr d"
    by (auto simp: list_all2_conv_all_nth)
  then obtain roi where roi: "resize cv (np_slice cv gray (faces ! i)) FACE_SIZE = Inr roi"
    and d: "d = classify r roi (faces ! i)"
    by (auto simp: recognize_one_def bindE_Inr_iff)
  from d have "snd (snd d) = faces ! i"
    by (auto simp: classify_def split: sum.splits prod.splits if_splits)
  with g roi d show ?thesis by (auto simp: fed_to_predict_def)
qed

text \<open>
  The region equals \<open>preprocess_face\<close> of the slice of the frame when the conversion to
  grey and the equalization commute with the slicing.
\<close>

lemma fed_to_predict_eq_preprocess_face:
  assumes "cvtColor cv frame COLOR_BGR2GRAY = Inr g"
    and "clahe_apply cv 2 (8, 8) g = Inr gray"
    and "cvtColor cv (np_slice cv frame b) COLOR_BGR2GRAY = Inr (np_slice cv g b)"
    and "clahe_apply cv 2 (8, 8) (np_slice cv g b) = Inr (np_slice cv gray b)"
  shows "fed_to_predict cv frame b = preprocess_face cv (np_slice cv frame b)"
  using assms by (simp add: fed_to_predict_def preprocess_face_def)

text \<open>
  Claim C3 fails on the code: \<open>recognize_faces\<close> equalizes the whole frame and then
  slices the region, \<open>preprocess_face\<close> of the region equalizes the region alone. With
  an equalization that depends on the surroundings of a pixel the two differ: here
  the region \<open>[[10]]\<close> reaches \<open>predict\<close>, \<open>preprocess_face\<close> of the same region is
  \<open>[[0]]\<close>, and the detections computed from the two differ.
\<close>

theorem detect_time_preprocessing_differs:
  "fed_to_predict stretch_cv demo_frame (1, 0, 1, 1) = Inr [[10]] \<and>
   preprocess_face stretch_cv (np_slice stretch_cv demo_frame (1, 0, 1, 1)) = Inr [[0]] \<and>
   recognize_faces stretch_cv echo_recognizer demo_frame = Inr [(''alice'', 10, (1, 0, 1, 1))] \<and>
   bindE (preprocess_face stretch_cv (np_slice stretch_cv demo_frame (1, 0, 1, 1)))
     (\<lambda>roi. Inr (classify echo_recognizer roi (1, 0, 1, 1))) = Inr (''alice'', 0, (1, 0, 1, 1))"
  by (simp add: fed_to_predict_def preprocess_face_def stretch_cv_def demo_cv_def demo_frame_def
      stretch_def slice_rows_def recognize_faces_def recognize_one_def classify_def
      echo_recognizer_def dict_get_def CONFIDENCE_THRESHOLD_def)

subsection \<open>The capture path\<close>

lemma bindS_Inr [simp]: "m s = (Inr x, s') \<Longrightarrow> bindS m f s = f x s'"
  by (simp add: bindS_def)

lemma bindS_Inl [simp]: "m s = (Inl ex, s') \<Longrightarrow> bindS m f s = (Inl ex, s')"
  by (simp add: bindS_def)

lemma liftS_apply [simp]: "liftS m s = (m, s)"
  by (simp add: liftS_def)

lemma returnS_apply [simp]: "returnS x s = (Inr x, s)"
  by (simp add: returnS_def)

text \<open>A component of the state that two operations keep is kept by their sequence.\<close>

lemma bindS_keeps:
  assumes "\<And>s. g (snd (m s)) = g s" and "\<And>x s. g (snd (f x s)) = g s"
  shows "g (snd (bindS m f s)) = g s"
proof (cases "m s")
  case (Pair r s')
  with assms(1) [of s] have "g s' = g s" by simp
  with Pair assms(2) show ?thesis by (cases r) (simp_all add: bindS_def)
qed

lemma run_tick_capture_None:
  assumes "check_pir_motion e"
    and "fst (capture_frame cv e (wake_camera e (s\<lparr>last_motion_time := time_motion e\<rparr>))) = Inr None"
  shows "fst (run_tick cv e e_clip s) = Inr ()"
proof -
  obtain r s3 where c: "capture_frame cv e (wake_camera e (s\<lparr>last_motion_time := time_motion e\<rparr>)) = (r, s3)"
    by (cases "capture_frame cv e (wake_camera e (s\<lparr>last_motion_time := time_motion e\<rparr>))")
  with assms(2) have "r = Inr None" by simp
  with c assms(1) show ?thesis by (simp add: run_tick_def)
qed

text \<open>
  Claim C4, as the code has it. \<open>capture_frame\<close> never raises an \<open>Exception\<close>: it
  returns \<open>None\<close> when the camera is unset, and \<open>None\<close> whenever its body raises,
  whatever was written before staying written; in particular when the camera raises,
  when the detector raises and when the write of the preview file raises. An iteration
  of the loop of \<open>run\<close> in which \<open>capture_frame\<close> returns \<open>None\<close> ends without an
  exception, so the loop goes on.
\<close>

theorem capture_frame_catches_failures:
  "(\<exists>r. fst (capture_frame cv e s) = Inr r) \<and>
   (camera s = None \<longrightarrow> capture_frame cv e s = (Inr None, s)) \<and>
   (\<forall>ex s'. camera s \<noteq> None \<and> capture_body cv e s = (Inl ex, s') \<longrightarrow>
      capture_frame cv e s = (Inr None, s')) \<and>
   (\<forall>ex. capture_array e = Inl ex \<longrightarrow> capture_frame cv e s = (Inr None, s)) \<and>
   (\<forall>raw frame ex.
      capture_array e = Inr raw \<and> cvtColor cv raw COLOR_RGB2BGR = Inr frame \<and>
      recognize_faces cv (recognizer s) frame = Inl ex \<longrightarrow>
      capture_frame cv e s = (Inr None, s)) \<and>
   (\<forall>raw frame detections annotated ex.
      capture_array e = Inr raw \<and> cvtColor cv raw COLOR_RGB2BGR = Inr frame \<and>
      recognize_faces cv (recognizer s) frame = Inr detections \<and>
      annotate cv e frame detections = Inr annotated \<and> mkdir e EVENTS_DIR = Inr () \<and>
      imwrite e (path_join EVENTS_DIR ''live.jpg'') annotated = Inl ex \<longrightarrow>
      fst (capture_frame cv e s) = Inr None) \<and>
   (check_pir_motion e \<and>
    fst (capture_frame cv e (wake_camera e (s\<lparr>last_motion_time := time_motion e\<rparr>))) = Inr None \<longrightarrow>
    fst (run_tick cv e e_clip s) = Inr ())"
proof (intro conjI allI impI)
  show "\<exists>r. fst (capture_frame cv e s) = Inr r"
    by (simp add: capture_frame_def split: prod.splits sum.splits)
next
  assume "camera s = None"
  then show "capture_frame cv e s = (Inr None, s)"
    by (simp add: capture_frame_def)
next
  fix ex s'
  assume "camera s \<noteq> None \<and> capture_body cv e s = (Inl ex, s')"
  then show "capture_frame cv e s = (Inr None, s')"
    by (auto simp: capture_frame_def)
next
  fix ex
  assume "capture_array e = Inl ex"
  then show "capture_frame cv e s = (Inr None, s)"
    by (simp add: capture_frame_def capture_body_def)
next
  fix raw frame ex
  assume "capture_array e = Inr raw \<and> cvtColor cv raw COLOR_RGB2BGR = Inr frame \<and>
      recognize_faces cv (recognizer s) frame = Inl ex"
  then show "capture_frame cv e s = (Inr None, s)"
    by (simp add: capture_frame_def capture_body_def)
next
  fix raw frame detections annotated ex
  assume "capture_array e = Inr raw \<and> cvtColor cv raw COLOR_RGB2BGR = Inr frame \<and>
      recognize_faces cv (recognizer s) frame = Inr detections \<and>
      annotate cv e frame detections = Inr annotated \<and> mkdir e EVENTS_DIR = Inr () \<and>
      imwrite e (path_join EVENTS_DIR ''live.jpg'') annotated = Inl ex"
  then show "fst (capture_frame cv e s) = Inr None"
    by (simp add: capture_frame_def capture_body_def do_mkdir_def do_imwrite_def)
next
  assume "check_pir_motion e \<and>
    fst (capture_frame cv e (wake_camera e (s\<lparr>last_motion_time := time_motion e\<rparr>))) = Inr None"
  then show "fst (run_tick cv e e_clip s) = Inr ()"
    by (simp add: run_tick_capture_None)
qed

text \<open>
  The theorem at an open camera that raises, on a tick with motion; with no camera;
  with a cascade that raises; and with a preview file that cannot be written.
\<close>

theorem capture_frame_catches_failures_witness:
  "capture_array broken_camera_env = Inl (PyException ''camera'') \<and>
   camera demo_state = Some Picamera2 \<and>
   check_pir_motion broken_camera_env \<and>
   capture_frame demo_cv broken_camera_env demo_state = (Inr None, demo_state) \<and>
   fst (run_tick demo_cv broken_camera_env demo_env demo_state) = Inr () \<and>
   capture_frame demo_cv demo_env (demo_state\<lparr>camera := None\<rparr>) =
     (Inr None, demo_state\<lparr>camera := None\<rparr>) \<and>
   recognize_faces (demo_cv\<lparr>detectMultiScale := (\<lambda>img sf mn ms. Inl (PyException ''cascade''))\<rparr>)
     (recognizer demo_state) demo_frame = Inl (PyException ''cascade'') \<and>
   capture_frame (demo_cv\<lparr>detectMultiScale := (\<lambda>img sf mn ms. Inl (PyException ''cascade''))\<rparr>)
     demo_env demo_state = (Inr None, demo_state) \<and>
   imwrite (demo_env\<lparr>imwrite := (\<lambda>path img. Inl (PyException ''disk''))\<rparr>)
     (path_join EVENTS_DIR ''live.jpg'') demo_frame = Inl (PyException ''disk'') \<and>
   fst (capture_frame demo_cv (demo_env\<lparr>imwrite := (\<lambda>path img. Inl (PyException ''disk''))\<rparr>)
          demo_state) = Inr None"
  using capture_frame_catches_failures [of demo_cv broken_camera_env demo_state demo_env]
    capture_frame_catches_failures [of demo_cv demo_env "demo_state\<lparr>camera := None\<rparr>" demo_env]
    capture_frame_catches_failures
      [of "demo_cv\<lparr>detectMultiScale := (\<lambda>img sf mn ms. Inl (PyException ''cascade''))\<rparr>"
        demo_env demo_state demo_env]
    capture_frame_catches_failures
      [of demo_cv "demo_env\<lparr>imwrite := (\<lambda>path img. Inl (PyException ''disk''))\<rparr>" demo_state demo_env]
  by (simp add: broken_camera_env_def demo_env_def demo_state_def check_pir_motion_def
      wake_camera_def capture_frame_def capture_body_def demo_cv_def recognize_faces_def
      recognize_one_def classify_def alice_recognizer_def dict_get_def CONFIDENCE_THRESHOLD_def)

text \<open>
  Claim C4 as stated fails for a failure that is not an exception. When \<open>cv2.imwrite\<close>
  reports that the preview file was not written by returning false, and likewise when
  \<open>cv2.imencode\<close> reports a failed encoding, \<open>capture_frame\<close> returns the frame, not
  \<open>None\<close>.
\<close>

theorem capture_frame_unreported_write_failure:
  "imwrite (demo_env\<lparr>imwrite := (\<lambda>path img. Inr False)\<rparr>) (path_join EVENTS_DIR ''live.jpg'')
     demo_frame = Inr False \<and>
   camera demo_state = Some Picamera2 \<and>
   fst (capture_frame demo_cv (demo_env\<lparr>imwrite := (\<lambda>path img. Inr False)\<rparr>) demo_state) =
     Inr (Some demo_frame) \<and>
   files (snd (capture_frame demo_cv (demo_env\<lparr>imwrite := (\<lambda>path img. Inr False)\<rparr>) demo_state)) =
     files demo_state \<and>
   imencode (demo_cv\<lparr>imencode := (\<lambda>img. Inr (False, []))\<rparr>) demo_frame = Inr (False, []) \<and>
   fst (capture_frame (demo_cv\<lparr>imencode := (\<lambda>img. Inr (False, []))\<rparr>) demo_env demo_state) =
     Inr (Some demo_frame) \<and>
   encoded_jpeg (snd (capture_frame (demo_cv\<lparr>imencode := (\<lambda>img. Inr (False, []))\<rparr>) demo_env
                        demo_state)) = None"
  by (simp add: capture_frame_def capture_body_def demo_cv_def demo_env_def demo_state_def
      recognize_faces_def recognize_one_def classify_def alice_recognizer_def dict_get_def
      CONFIDENCE_THRESHOLD_def do_mkdir_def do_imwrite_def set_frame_def demo_frame_def
      bindS_def)

subsection \<open>The label the capture path publishes\<close>

lemma label_do_mkdir [simp]: "current_label (snd (do_mkdir e p ps s)) = current_label s"
  by (simp add: do_mkdir_def split: sum.splits)

lemma label_do_imwrite [simp]: "current_label (snd (do_imwrite e p img s)) = current_label s"
  by (simp add: do_imwrite_def split: sum.splits)

lemma label_log_event [simp]: "current_label (log_event e ty fp person s) = current_label s"
  by (simp add: log_event_def split: option.splits sum.splits)

lemma label_wake_camera [simp]: "current_label (wake_camera e s) = current_label s"
  by (simp add: wake_camera_def initialize_camera_def split: sum.splits)

lemma label_stop_camera [simp]: "current_label (stop_camera e s) = current_label s"
  by (simp add: stop_camera_def split: sum.splits)

lemma label_record_clip [simp]: "current_label (snd (record_clip e filename s)) = current_label s"
  unfolding record_clip_def
  by (auto intro!: bindS_keeps split: sum.splits)

lemma label_set_frame: "current_label (snd (set_frame cv e frame None s)) = ''Unknown''"
proof -
  have "current_label (snd (bindS (do_imwrite e LIVE_PATH frame) (\<lambda>_. returnS ()) s')) = current_label s'"
    for s' :: "'a state"
    by (rule bindS_keeps) simp_all
  then show ?thesis
    by (simp add: set_frame_def Let_def split: sum.splits prod.splits)
qed

lemma label_bindS_post:
  assumes "\<And>s. current_label (snd (m s)) = current_label s"
    and "\<And>x s1. current_label (snd (f x s1)) = ''Unknown'' \<or>
           (isl (fst (f x s1)) \<and> current_label (snd (f x s1)) = current_label s1)"
  shows "current_label (snd (bindS m f s)) = ''Unknown'' \<or>
           (isl (fst (bindS m f s)) \<and> current_label (snd (bindS m f s)) = current_label s)"
proof (cases "m s")
  case (Pair r s')
  with assms(1) [of s] have eq: "current_label s' = current_label s" by simp
  show ?thesis
  proof (cases r)
    case (Inl ex)
    with Pair eq show ?thesis by (simp add: bindS_def)
  next
    case (Inr x)
    with Pair eq assms(2) [of x s'] show ?thesis by (simp add: bindS_def)
  qed
qed

lemma label_publish:
  "current_label (snd (bindS (set_frame cv e frame None) (\<lambda>_. returnS frame) s)) = ''Unknown''"
  using label_set_frame [of cv e frame s]
  by (cases "set_frame cv e frame None s") (auto simp: bindS_def split: sum.splits)

lemma label_capture_body:
  "current_label (snd (capture_body cv e s)) = ''Unknown'' \<or>
   (isl (fst (capture_body cv e s)) \<and> current_label (snd (capture_body cv e s)) = current_label s)"
  unfolding capture_body_def
  by (intro label_bindS_post disjI1 label_publish) simp_all

lemma label_capture_frame:
  "(fst (capture_frame cv e s) = Inr (Some frame) \<longrightarrow>
      current_label (snd (capture_frame cv e s)) = ''Unknown'') \<and>
   (current_label (snd (capture_frame cv e s)) = ''Unknown'' \<or>
    current_label (snd (capture_frame cv e s)) = current_label s)"
  using label_capture_body [of cv e s]
  by (cases "capture_body cv e s") (auto simp: capture_frame_def split: sum.splits)

lemma label_run_tick:
  "current_label s = ''Unknown'' \<Longrightarrow> current_label (snd (run_tick cv e e_clip s)) = ''Unknown''"
proof -
  assume u: "current_label s = ''Unknown''"
  let ?s2 = "wake_camera e (s\<lparr>last_motion_time := time_motion e\<rparr>)"
  obtain r s3 where c: "capture_frame cv e ?s2 = (r, s3)" by (cases "capture_frame cv e ?s2")
  from label_capture_frame [of cv e ?s2] c u have s3: "current_label s3 = ''Unknown''"
    by auto
  show ?thesis
  proof (cases "check_pir_motion e")
    case False
    with u show ?thesis by (simp add: run_tick_def)
  next
    case True
    show ?thesis
    proof (cases r)
      case (Inl ex)
      with True c s3 show ?thesis by (simp add: run_tick_def bindS_def)
    next
      case (Inr fo)
      show ?thesis
      proof (cases fo)
        case None
        with Inr True c s3 show ?thesis by (simp add: run_tick_def bindS_def)
      next
        case (Some frame)
        with Inr True c s3 show ?thesis
          by (auto simp: run_tick_def bindS_def do_imwrite_def Let_def
              split: sum.splits list.splits prod.splits)
      qed
    qed
  qed
qed

lemma label_run_ticks:
  "current_label s = ''Unknown'' \<Longrightarrow> current_label (snd (run_ticks cv es s)) = ''Unknown''"
proof (induction es arbitrary: s)
  case Nil
  then show ?case by simp
next
  case (Cons a es)
  obtain e e_clip where a: "a = (e, e_clip)" by (cases a)
  obtain r s' where t: "run_tick cv e e_clip s = (r, s')" by (cases "run_tick cv e e_clip s")
  from label_run_tick [OF Cons.prems, of cv e e_clip] t have "current_label s' = ''Unknown''" by simp
  with Cons.IH [of s'] a t show ?case by (cases r) simp_all
qed

text \<open>
  Claim C5. \<open>capture_frame\<close> calls \<open>set_frame\<close> with no label, which sets
  \<open>current_label\<close> to \<open>Unknown\<close>: after a capture that returns a frame \<open>/api/status\<close>
  reports \<open>Unknown\<close>, whatever the detections; a capture leaves \<open>current_label\<close> as it was
  or sets it to \<open>Unknown\<close>; and from a state whose label is \<open>Unknown\<close>, as the globals
  are initialized, no number of iterations of the loop of \<open>run\<close> makes \<open>/api/status\<close>
  report anything else.
\<close>

theorem capture_path_label_unknown:
  "current_label (snd (set_frame cv e frame None s)) = ''Unknown'' \<and>
   (fst (capture_frame cv e s) = Inr (Some frame) \<longrightarrow>
      status_current_label (status (snd (capture_frame cv e s))) = ''Unknown'') \<and>
   (current_label (snd (capture_frame cv e s)) = ''Unknown'' \<or>
    current_label (snd (capture_frame cv e s)) = current_label s) \<and>
   (current_label s = ''Unknown'' \<longrightarrow>
      status_current_label (status (snd (run_ticks cv es s))) = ''Unknown'')"
  using label_set_frame [of cv e frame s] label_capture_frame [of cv e s frame]
    label_run_ticks [of s cv es]
  by (simp add: status_def)

text \<open>The theorem at a frame in which \<open>alice\<close> is recognized.\<close>

lemma demo_capture:
  "fst (capture_frame demo_cv demo_env demo_state) = Inr (Some demo_frame)"
  by (simp add: capture_frame_def capture_body_def demo_cv_def demo_env_def demo_state_def
      recognize_faces_def recognize_one_def classify_def alice_recognizer_def dict_get_def
      CONFIDENCE_THRESHOLD_def do_mkdir_def do_imwrite_def set_frame_def demo_frame_def)

theorem capture_path_label_unknown_witness:
  "fst (capture_frame demo_cv demo_env demo_state) = Inr (Some demo_frame) \<and>
   recognize_faces demo_cv (recognizer demo_state) demo_frame = Inr [(''alice'', 45, (0, 0, 100, 100))] \<and>
   status_current_label (status (snd (capture_frame demo_cv demo_env demo_state))) = ''Unknown'' \<and>
   current_label demo_state = ''Unknown'' \<and>
   status_current_label
     (status (snd (run_ticks demo_cv [(demo_env, demo_env), (demo_env, demo_env)] demo_state))) = ''Unknown''"
  using capture_path_label_unknown [of demo_cv demo_env demo_frame demo_state
      "[(demo_env, demo_env), (demo_env, demo_env)]"] demo_capture demo_results
  by (simp add: demo_state_def)

subsection \<open>Enrolment\<close>




subsection \<open>The idle timeout\<close>

lemma stop_camera_off: "stop_camera e s = s\<lparr>camera := None\<rparr>"
  by (cases "camera s") (simp_all add: stop_camera_def split: sum.splits)

lemma run_tick_no_motion:
  "\<not> check_pir_motion e \<Longrightarrow>
   run_tick cv e e_clip s =
     (Inr (), if camera s \<noteq> None \<and> float_sub (time_idle e) (last_motion_time s) > IDLE_TIMEOUT
              then s\<lparr>camera := None\<rparr> else s)"
  by (simp add: run_tick_def stop_camera_off)

lemma run_ticks_no_motion_off:
  "\<forall>x\<in>set es. \<not> check_pir_motion (fst x) \<Longrightarrow> camera s = None \<Longrightarrow>
   run_ticks cv es s = (Inr (), s)"
proof (induction es)
  case Nil
  then show ?case by simp
next
  case (Cons a es)
  obtain e e_clip where a: "a = (e, e_clip)" by (cases a)
  with Cons show ?case by (simp add: run_tick_no_motion)
qed

text \<open>
  Claim C7, as the code has it. On an iteration of the loop of \<open>run\<close> that reads no
  motion: when the camera is active and the float difference of the clock and
  \<open>last_motion_time\<close> exceeds \<open>Config.IDLE_TIMEOUT\<close>, the camera handle is set to \<open>None\<close>
  and nothing else changes, whether or not the driver raises while it stops; when the
  camera is inactive or the float difference does not exceed the timeout, the state is
  unchanged. The float difference exceeds the timeout exactly when the elapsed time
  exceeds it by more than \<open>2^-50\<close> seconds. Further iterations without motion leave the
  camera off: there is one transition.
\<close>

theorem idle_timeout_powers_camera_off:
  "(\<not> check_pir_motion e \<and> camera s \<noteq> None \<and>
    float_sub (time_idle e) (last_motion_time s) > IDLE_TIMEOUT \<longrightarrow>
      run_tick cv e e_clip s = (Inr (), s\<lparr>camera := None\<rparr>)) \<and>
   (\<not> check_pir_motion e \<and>
    (camera s = None \<or> float_sub (time_idle e) (last_motion_time s) \<le> IDLE_TIMEOUT) \<longrightarrow>
      run_tick cv e e_clip s = (Inr (), s)) \<and>
   (float_sub (time_idle e) (last_motion_time s) > IDLE_TIMEOUT \<longleftrightarrow>
      time_idle e - last_motion_time s > IDLE_TIMEOUT + 1 / 2 ^ 50) \<and>
   (\<not> check_pir_motion e \<and> camera s \<noteq> None \<and>
    float_sub (time_idle e) (last_motion_time s) > IDLE_TIMEOUT \<and>
    (\<forall>x\<in>set es. \<not> check_pir_motion (fst x)) \<longrightarrow>
      run_ticks cv ((e, e_clip) # es) s = (Inr (), s\<lparr>camera := None\<rparr>))"
proof -
  have "float_sub (time_idle e) (last_motion_time s) > IDLE_TIMEOUT \<longleftrightarrow>
      time_idle e - last_motion_time s > IDLE_TIMEOUT + 1 / 2 ^ 50"
    by (simp add: float_sub_def IDLE_TIMEOUT_def float_round_gt_10_iff)
  then show ?thesis
    by (auto simp: run_tick_no_motion run_ticks_no_motion_off)
qed

text \<open>
  The theorem 100 seconds after the last motion, with the camera active and with the
  camera off, and 5 seconds after the last motion.
\<close>

theorem idle_timeout_powers_camera_off_witness:
  "\<not> check_pir_motion idle_env \<and> camera demo_state = Some Picamera2 \<and>
   float_sub (time_idle idle_env) (last_motion_time demo_state) > IDLE_TIMEOUT \<and>
   run_tick demo_cv idle_env demo_env demo_state = (Inr (), demo_state\<lparr>camera := None\<rparr>) \<and>
   run_tick demo_cv idle_env demo_env (demo_state\<lparr>camera := None\<rparr>) =
     (Inr (), demo_state\<lparr>camera := None\<rparr>) \<and>
   float_sub (time_idle (idle_env\<lparr>time_idle := 5\<rparr>)) (last_motion_time demo_state) \<le> IDLE_TIMEOUT \<and>
   run_tick demo_cv (idle_env\<lparr>time_idle := 5\<rparr>) demo_env demo_state = (Inr (), demo_state) \<and>
   run_ticks demo_cv [(idle_env, demo_env), (idle_env, demo_env), (idle_env, demo_env)] demo_state =
     (Inr (), demo_state\<lparr>camera := None\<rparr>)"
proof -
  have far: "float_sub (time_idle idle_env) (last_motion_time demo_state) > IDLE_TIMEOUT"
    using idle_timeout_powers_camera_off [of idle_env demo_state demo_cv demo_env "[]"]
    by (simp add: idle_env_def demo_env_def demo_state_def IDLE_TIMEOUT_def)
  have near: "float_sub (time_idle (idle_env\<lparr>time_idle := 5\<rparr>)) (last_motion_time demo_state)
      \<le> IDLE_TIMEOUT"
    using idle_timeout_powers_camera_off [of "idle_env\<lparr>time_idle := 5\<rparr>" demo_state demo_cv
        demo_env "[]"]
    by (simp add: idle_env_def demo_env_def demo_state_def IDLE_TIMEOUT_def not_less [symmetric])
  have quiet: "\<not> check_pir_motion idle_env" "\<not> check_pir_motion (idle_env\<lparr>time_idle := 5\<rparr>)"
    by (simp_all add: idle_env_def demo_env_def check_pir_motion_def)
  have cam: "camera demo_state = Some Picamera2" by (simp add: demo_state_def)
  from idle_timeout_powers_camera_off [of idle_env demo_state demo_cv demo_env
      "[(idle_env, demo_env), (idle_env, demo_env)]"]
    idle_timeout_powers_camera_off [of idle_env "demo_state\<lparr>camera := None\<rparr>" demo_cv demo_env "[]"]
    idle_timeout_powers_camera_off [of "idle_env\<lparr>time_idle := 5\<rparr>" demo_state demo_cv demo_env "[]"]
    far near quiet cam
  show ?thesis by simp
qed

text \<open>
  Claim C7 as stated fails. The camera is active, no motion is read, and the time since
  \<open>last_motion_time\<close> exceeds the timeout of 10 seconds, by 13 parts in \<open>2^54\<close>; the
  float difference is 10, and the iteration leaves the camera on.
\<close>

theorem idle_timeout_missed_by_rounding:
  "\<not> check_pir_motion near_epoch_env \<and>
   camera near_epoch_state = Some Picamera2 \<and>
   time_idle near_epoch_env - last_motion_time near_epoch_state > IDLE_TIMEOUT \<and>
   run_tick demo_cv near_epoch_env demo_env near_epoch_state = (Inr (), near_epoch_state)"
proof -
  have quiet: "\<not> check_pir_motion near_epoch_env"
    by (simp add: near_epoch_env_def idle_env_def demo_env_def check_pir_motion_def)
  have "float_sub (time_idle near_epoch_env) (last_motion_time near_epoch_state) = 10"
    using float_sub_near_epoch
    by (simp add: near_epoch_env_def near_epoch_state_def idle_env_def demo_env_def demo_state_def)
  then have "run_tick demo_cv near_epoch_env demo_env near_epoch_state = (Inr (), near_epoch_state)"
    using quiet by (simp add: run_tick_no_motion IDLE_TIMEOUT_def)
  with quiet show ?thesis
    by (simp add: near_epoch_env_def near_epoch_state_def idle_env_def demo_env_def demo_state_def
        IDLE_TIMEOUT_def)
qed

subsection \<open>The event store\<close>

lemma fold_max_ge: "a \<le> fold max xs (a::int)" "\<forall>x\<in>set xs. x \<le> fold max xs a"
proof -
  have "a \<le> fold max xs a \<and> (\<forall>x\<in>set xs. x \<le> fold max xs a)"
  proof (induction xs arbitrary: a)
    case Nil
    then show ?case by simp
  next
    case (Cons x xs)
    from Cons.IH [of "max x a"] show ?case by auto
  qed
  then show "a \<le> fold max xs a" "\<forall>x\<in>set xs. x \<le> fold max xs a" by simp_all
qed

lemma largest_id_bounds:
  "sqlite_sequence t \<le> largest_id t" "r \<in> set (table_rows t) \<Longrightarrow> row_id r \<le> largest_id t"
  using fold_max_ge [where a = "sqlite_sequence t" and xs = "map row_id (table_rows t)"]
  by (auto simp: largest_id_def)

lemma largest_id_increasing: "ids_increasing t \<Longrightarrow> largest_id t = sqlite_sequence t"
proof -
  have "fold max xs (a::int) = a" if "\<forall>x\<in>set xs. x \<le> a" for xs a
    using that by (induction xs) (simp_all add: max_absorb2)
  then show "ids_increasing t \<Longrightarrow> largest_id t = sqlite_sequence t"
    by (simp add: largest_id_def ids_increasing_def)
qed

lemma sqlite_insert_row:
  assumes "sqlite_insert t ts ty fp pn = Inr t'"
  shows "table_rows t' = table_rows t @
           [\<lparr>row_id = largest_id t + 1, timestamp = ts, event_type = ty, file_path = fp,
             person_name = pn\<rparr>]"
    and "sqlite_sequence t' = largest_id t + 1"
    and "\<forall>r\<in>set (table_rows t). row_id r < largest_id t + 1"
    and "sqlite_sequence t < largest_id t + 1"
  using assms largest_id_bounds [where t = t]
  by (auto simp: sqlite_insert_def split: if_splits intro: le_less_trans)

lemma sqlite_insert_increasing:
  assumes "sqlite_insert t ts ty fp pn = Inr t'" and "ids_increasing t"
  shows "ids_increasing t'"
proof -
  note row = sqlite_insert_row [OF assms(1)]
  from assms(2) row(3) have "sorted_wrt (<) (map row_id (table_rows t'))"
    by (auto simp: row(1) ids_increasing_def sorted_wrt_append)
  moreover from row(3) have "\<forall>r\<in>set (table_rows t'). row_id r \<le> sqlite_sequence t'"
    by (auto simp: row(1) row(2))
  ultimately show ?thesis by (simp add: ids_increasing_def)
qed

lemma get_events_newest:
  assumes "ids_increasing t" and "table_rows t = old @ [r]"
  shows "hd (get_events t) = (row_id r, timestamp r, event_type r, file_path r)"
proof -
  from assms(1) have "sorted_wrt (<) (map row_id (table_rows t))"
    by (simp add: ids_increasing_def)
  then have "sorted (map row_id (table_rows t))"
    by (rule sorted_wrt_mono_rel [rotated]) simp
  then have "sort_key row_id (table_rows t) = table_rows t"
    by (rule sort_key_id_if_sorted)
  with assms(2) show ?thesis by (simp add: get_events_def)
qed

lemma log_event_cases:
  assumes "db s = Some t"
  shows "log_event e ty fp person s = s \<or>
         (\<exists>t'. sqlite_insert t (strftime e ''%Y-%m-%d %H:%M:%S'') ty fp person = Inr t' \<and>
               log_event e ty fp person s = s\<lparr>db := Some t'\<rparr>)"
  using assms by (auto simp: log_event_def split: option.splits sum.splits)

lemma log_event_inserts:
  assumes "db s = Some t" and "sqlite_error e = None" and "largest_id t < 9223372036854775807"
  shows "\<exists>t'. sqlite_insert t (strftime e ''%Y-%m-%d %H:%M:%S'') ty fp person = Inr t' \<and>
              log_event e ty fp person s = s\<lparr>db := Some t'\<rparr>"
  using assms by (simp add: log_event_def sqlite_insert_def)

lemma db_do_mkdir [simp]: "db (snd (do_mkdir e p ps s)) = db s"
  by (simp add: do_mkdir_def split: sum.splits)

lemma db_do_imwrite [simp]: "db (snd (do_imwrite e p img s)) = db s"
  by (simp add: do_imwrite_def split: sum.splits)

lemma db_wake_camera [simp]: "db (wake_camera e s) = db s"
  by (simp add: wake_camera_def initialize_camera_def split: sum.splits)

lemma db_stop_camera [simp]: "db (stop_camera e s) = db s"
  by (simp add: stop_camera_def split: sum.splits)

lemma db_set_frame [simp]: "db (snd (set_frame cv e frame label_arg s)) = db s"
proof -
  have "db (snd (bindS (do_imwrite e LIVE_PATH frame) (\<lambda>_. returnS ()) s')) = db s'"
    for s' :: "'a state"
    by (rule bindS_keeps) simp_all
  then show ?thesis
    by (simp add: set_frame_def Let_def split: sum.splits prod.splits)
qed

lemma db_capture_frame [simp]: "db (snd (capture_frame cv e s)) = db s"
proof -
  have "db (snd (capture_body cv e s)) = db s"
    unfolding capture_body_def by (intro bindS_keeps) simp_all
  then show ?thesis
    by (cases "capture_body cv e s") (auto simp: capture_frame_def split: sum.splits)
qed

lemma keeps_ids_same: "db s' = db s \<Longrightarrow> keeps_ids s s'"
  by (auto simp: keeps_ids_def)

lemma keeps_ids_trans: "keeps_ids s s' \<Longrightarrow> keeps_ids s' s'' \<Longrightarrow> keeps_ids s s''"
  unfolding keeps_ids_def by (metis append.assoc)

lemma keeps_ids_log_event: "keeps_ids s (log_event e ty fp person s)"
  unfolding keeps_ids_def
proof (intro allI impI)
  fix t
  assume a: "db s = Some t \<and> ids_increasing t"
  from log_event_cases [of s t e ty fp person] a
  consider "log_event e ty fp person s = s"
    | t' where "sqlite_insert t (strftime e ''%Y-%m-%d %H:%M:%S'') ty fp person = Inr t'"
        "log_event e ty fp person s = s\<lparr>db := Some t'\<rparr>"
    by auto
  then show "\<exists>t' new. db (log_event e ty fp person s) = Some t' \<and>
      table_rows t' = table_rows t @ new \<and> ids_increasing t'"
  proof cases
    case 1
    with a show ?thesis by auto
  next
    case 2
    with a sqlite_insert_row(1) [OF 2(1)] sqlite_insert_increasing [OF 2(1)]
    show ?thesis by auto
  qed
qed

lemma keeps_ids_record_clip: "keeps_ids s (snd (record_clip e filename s))"
proof (cases "camera s = None \<or> isl (mkdir e RECORDINGS_DIR)")
  case True
  then have "db (snd (record_clip e filename s)) = db s"
    by (auto simp: record_clip_def do_mkdir_def bindS_def isl_def)
  then show ?thesis by (rule keeps_ids_same)
next
  case False
  then obtain u where mk: "mkdir e RECORDINGS_DIR = Inr u" and cam: "camera s \<noteq> None"
    by (cases "mkdir e RECORDINGS_DIR") auto
  let ?s1 = "s\<lparr>dirs := insert RECORDINGS_DIR (set [] \<union> dirs s)\<rparr>"
  have s1: "keeps_ids s ?s1" by (rule keeps_ids_same) simp
  have "snd (record_clip e filename s) = ?s1 \<or>
        snd (record_clip e filename s) =
          log_event e ''motion_recorded'' (Some (path_join RECORDINGS_DIR filename)) None ?s1"
    using mk cam by (auto simp: record_clip_def do_mkdir_def bindS_def split: sum.splits)
  with s1 keeps_ids_log_event [of ?s1] show ?thesis
    by (auto intro: keeps_ids_trans)
qed

lemma keeps_ids_run_tick: "keeps_ids s (snd (run_tick cv e e_clip s))"
proof (cases "check_pir_motion e")
  case False
  then have "db (snd (run_tick cv e e_clip s)) = db s" by (simp add: run_tick_def)
  then show ?thesis by (rule keeps_ids_same)
next
  case True
  let ?s2 = "wake_camera e (s\<lparr>last_motion_time := time_motion e\<rparr>)"
  obtain r s3 where c: "capture_frame cv e ?s2 = (r, s3)" by (cases "capture_frame cv e ?s2")
  have "db s3 = db ?s2" using db_capture_frame [of cv e ?s2] c by simp
  then have s3: "keeps_ids s s3" by (intro keeps_ids_same) simp
  have tick: "run_tick cv e e_clip s =
    (case r of Inl ex \<Rightarrow> (Inl ex, s3)
     | Inr frame \<Rightarrow>
        (case frame of
                None \<Rightarrow> (Inr (), s3)
              | Some frame \<Rightarrow>
                  bindS (liftS (recognize_faces cv (recognizer s3) frame)) (\<lambda>detections.
                  (let person = (case detections of [] \<Rightarrow> ''Unknown'' | d # ds \<Rightarrow> fst d);
                       img_path = path_join EVENTS_DIR
                         (person @ ''_'' @ str_int e (py_int (time_snapshot e)) @ ''.jpg'')
                   in bindS (do_imwrite e img_path frame) (\<lambda>_ s4.
                      (let s5 = log_event e ''motion_detected'' (Some img_path) (Some person) s4;
                           filename = ''record_'' @ str_int e (py_int (time_clip e)) @ ''.mp4''
                       in (case thread_start e of
                             Inl ex \<Rightarrow> (Inl ex, s5)
                           | Inr u \<Rightarrow> (Inr (), snd (record_clip e_clip filename s5))))))) s3))"
    using True c by (simp add: run_tick_def bindS_def split: sum.splits)
  have after: "keeps_ids s3 (snd ((case thread_start e of
        Inl ex \<Rightarrow> (Inl ex, log_event e ''motion_detected'' fp person s4)
      | Inr u \<Rightarrow> (Inr (), snd (record_clip e_clip filename
                    (log_event e ''motion_detected'' fp person s4))))))"
    if "db s4 = db s3" for s4 fp person filename
  proof -
    from that have "keeps_ids s3 s4" by (rule keeps_ids_same)
    then have "keeps_ids s3 (log_event e ''motion_detected'' fp person s4)"
      using keeps_ids_log_event keeps_ids_trans by blast
    then show ?thesis
      using keeps_ids_record_clip keeps_ids_trans
      by (cases "thread_start e") (simp, fastforce)
  qed
  have tail: "keeps_ids s3 (snd (bindS (do_imwrite e img_path frame) (\<lambda>_ s4.
        case thread_start e of
          Inl ex \<Rightarrow> (Inl ex, log_event e ''motion_detected'' fp person s4)
        | Inr u \<Rightarrow> (Inr (), snd (record_clip e_clip filename
                      (log_event e ''motion_detected'' fp person s4)))) s3))"
    for img_path frame fp person filename
  proof -
    obtain w s4 where iw: "do_imwrite e img_path frame s3 = (w, s4)"
      by (cases "do_imwrite e img_path frame s3")
    with db_do_imwrite [of e img_path frame s3] have s4: "db s4 = db s3" by simp
    show ?thesis
    proof (cases w)
      case (Inl ex)
      with iw s4 show ?thesis by (simp add: bindS_def keeps_ids_same)
    next
      case (Inr ok)
      with iw after [OF s4] show ?thesis by (simp add: bindS_def)
    qed
  qed
  have "keeps_ids s3 (snd (run_tick cv e e_clip s))"
  proof (cases r)
    case (Inl ex)
    with tick show ?thesis by (simp add: keeps_ids_same)
  next
    case (Inr fo)
    show ?thesis
    proof (cases fo)
      case None
      with Inr tick show ?thesis by (simp add: keeps_ids_same)
    next
      case (Some frame)
      show ?thesis
      proof (cases "recognize_faces cv (recognizer s3) frame")
        case (Inl ex)
        with Some Inr tick show ?thesis by (simp add: keeps_ids_same)
      next
        case det: (Inr detections)
        with Some Inr tick show ?thesis by (simp add: Let_def tail)
      qed
    qed
  qed
  with s3 show ?thesis by (rule keeps_ids_trans)
qed

lemma keeps_ids_run_ticks: "keeps_ids s (snd (run_ticks cv es s))"
proof (induction es arbitrary: s)
  case Nil
  then show ?case by (simp add: keeps_ids_same)
next
  case (Cons a es)
  obtain e e_clip where a: "a = (e, e_clip)" by (cases a)
  obtain r s' where t: "run_tick cv e e_clip s = (r, s')" by (cases "run_tick cv e e_clip s")
  from keeps_ids_run_tick [of s cv e e_clip] t have k: "keeps_ids s s'" by simp
  show ?case
  proof (cases r)
    case (Inl ex)
    with a t k show ?thesis by simp
  next
    case (Inr u)
    with a t k Cons.IH [of s'] show ?thesis by (auto intro: keeps_ids_trans)
  qed
qed

text \<open>
  Claim C8. \<open>init_database\<close> creates an empty table when there is none. A call of \<open>log_event\<close> on a table
  whose ids increase leaves it as it is (when the insert raises) or appends one row:
  its id is greater than every id of the table and than every id the table ever held,
  its time stamp, event type, file path and person name are the values written, and
  \<open>get_events\<close> returns it first, with those values; the row is appended when SQLite
  raises nothing and the ids are not exhausted. Over any number of iterations of the
  loop of \<open>run\<close> the rows of the table stay as they are, new rows follow them, and the
  ids increase strictly, so no id is used twice.
\<close>

theorem event_ids_strictly_increase:
  "(db s0 = None \<and> mkdir e BASE_DIR = Inr () \<and> sqlite_error e = None \<longrightarrow>
      (\<exists>s' t. init_database e s0 = (Inr (), s') \<and> db s' = Some t \<and> table_rows t = [] \<and>
         ids_increasing t)) \<and>
   (db s = Some t \<and> ids_increasing t \<longrightarrow>
      (\<exists>t'. db (log_event e ty fp person s) = Some t' \<and> ids_increasing t' \<and>
         (t' = t \<or>
          (\<exists>n. table_rows t' = table_rows t @
                  [\<lparr>row_id = n, timestamp = strftime e ''%Y-%m-%d %H:%M:%S'', event_type = ty,
                    file_path = fp, person_name = person\<rparr>] \<and>
               (\<forall>r\<in>set (table_rows t). row_id r < n) \<and>
               sqlite_sequence t < n \<and> sqlite_sequence t' = n \<and>
               hd (get_events t') = (n, strftime e ''%Y-%m-%d %H:%M:%S'', ty, fp))) \<and>
         (sqlite_error e = None \<and> sqlite_sequence t < 9223372036854775807 \<longrightarrow>
            length (table_rows t') = Suc (length (table_rows t))))) \<and>
   (db s = Some t \<and> ids_increasing t \<longrightarrow>
      (\<exists>t' new. db (snd (run_ticks cv es s)) = Some t' \<and>
         table_rows t' = table_rows t @ new \<and>
         sorted_wrt (<) (map row_id (table_rows t')) \<and>
         distinct (map row_id (table_rows t')) \<and>
         (\<forall>r\<in>set (table_rows t'). row_id r \<le> sqlite_sequence t')))"
proof (intro conjI impI)
  assume "db s0 = None \<and> mkdir e BASE_DIR = Inr () \<and> sqlite_error e = None"
  then show "\<exists>s' t. init_database e s0 = (Inr (), s') \<and> db s' = Some t \<and> table_rows t = [] \<and>
         ids_increasing t"
    by (simp add: init_database_def do_mkdir_def bindS_def ids_increasing_def)
next
  assume a: "db s = Some t \<and> ids_increasing t"
  let ?ts = "strftime e ''%Y-%m-%d %H:%M:%S''"
  from a have li: "largest_id t = sqlite_sequence t" by (simp add: largest_id_increasing)
  from log_event_cases [of s t e ty fp person] a
  consider (same) "log_event e ty fp person s = s"
    | (ins) t' where "sqlite_insert t ?ts ty fp person = Inr t'"
        "log_event e ty fp person s = s\<lparr>db := Some t'\<rparr>"
    by auto
  then have main: "\<exists>t'. db (log_event e ty fp person s) = Some t' \<and> ids_increasing t' \<and>
         (t' = t \<or>
          (\<exists>n. table_rows t' = table_rows t @
                  [\<lparr>row_id = n, timestamp = ?ts, event_type = ty,
                    file_path = fp, person_name = person\<rparr>] \<and>
               (\<forall>r\<in>set (table_rows t). row_id r < n) \<and>
               sqlite_sequence t < n \<and> sqlite_sequence t' = n \<and>
               hd (get_events t') = (n, ?ts, ty, fp)))"
  proof cases
    case same
    with a show ?thesis by auto
  next
    case ins
    note row = sqlite_insert_row [OF ins(1)]
    have inc: "ids_increasing t'" using ins(1) a by (auto intro: sqlite_insert_increasing)
    from get_events_newest [OF inc row(1)]
    have "hd (get_events t') = (largest_id t + 1, ?ts, ty, fp)" by simp
    with ins(2) inc row show ?thesis by auto
  qed
  have grows: "length (table_rows t') = Suc (length (table_rows t))"
    if "sqlite_error e = None \<and> sqlite_sequence t < 9223372036854775807"
      "db (log_event e ty fp person s) = Some t'" for t'
  proof -
    from log_event_inserts [of s t e ty fp person] a that(1) li
    obtain t'' where i: "sqlite_insert t ?ts ty fp person = Inr t''"
      "log_event e ty fp person s = s\<lparr>db := Some t''\<rparr>" by auto
    with that(2) have "t'' = t'" by simp
    with sqlite_insert_row(1) [OF i(1)] show ?thesis by simp
  qed
  from main grows
  show "\<exists>t'. db (log_event e ty fp person s) = Some t' \<and> ids_increasing t' \<and>
         (t' = t \<or>
          (\<exists>n. table_rows t' = table_rows t @
                  [\<lparr>row_id = n, timestamp = ?ts, event_type = ty,
                    file_path = fp, person_name = person\<rparr>] \<and>
               (\<forall>r\<in>set (table_rows t). row_id r < n) \<and>
               sqlite_sequence t < n \<and> sqlite_sequence t' = n \<and>
               hd (get_events t') = (n, ?ts, ty, fp))) \<and>
         (sqlite_error e = None \<and> sqlite_sequence t < 9223372036854775807 \<longrightarrow>
            length (table_rows t') = Suc (length (table_rows t)))"
    by blast
next
  assume a: "db s = Some t \<and> ids_increasing t"
  from keeps_ids_run_ticks [of s cv es] a obtain t' new where
    t': "db (snd (run_ticks cv es s)) = Some t'" "table_rows t' = table_rows t @ new"
      "ids_increasing t'"
    unfolding keeps_ids_def by blast
  from t'(3) have st: "sorted_wrt (<) (map row_id (table_rows t'))"
    and le: "\<forall>r\<in>set (table_rows t'). row_id r \<le> sqlite_sequence t'"
    by (simp_all add: ids_increasing_def)
  from st have "distinct (map row_id (table_rows t'))"
    by (simp add: strict_sorted_iff)
  with t' st le show "\<exists>t' new. db (snd (run_ticks cv es s)) = Some t' \<and>
         table_rows t' = table_rows t @ new \<and>
         sorted_wrt (<) (map row_id (table_rows t')) \<and>
         distinct (map row_id (table_rows t')) \<and>
         (\<forall>r\<in>set (table_rows t'). row_id r \<le> sqlite_sequence t')"
    by blast
qed


text \<open>
  The theorem at the start of the program, and on the new table for one event and for
  two iterations with motion.
\<close>

lemma demo_two_ticks:
  "db (snd (run_ticks demo_cv [(demo_env, demo_env), (demo_env, demo_env)] logging_state)) =
     Some \<lparr>table_rows =
       [\<lparr>row_id = 1, timestamp = ''2026-11-03 19:14:00'', event_type = ''motion_detected'',
          file_path = Some ''/home/pi/Security/pi_patrol/events/alice_100.jpg'',
          person_name = Some ''alice''\<rparr>,
        \<lparr>row_id = 2, timestamp = ''2026-11-03 19:14:00'', event_type = ''motion_recorded'',
          file_path = Some ''/home/pi/Security/pi_patrol/recordings/record_100.mp4'',
          person_name = None\<rparr>,
        \<lparr>row_id = 3, timestamp = ''2026-11-03 19:14:00'', event_type = ''motion_detected'',
          file_path = Some ''/home/pi/Security/pi_patrol/events/alice_100.jpg'',
          person_name = Some ''alice''\<rparr>,
        \<lparr>row_id = 4, timestamp = ''2026-11-03 19:14:00'', event_type = ''motion_recorded'',
          file_path = Some ''/home/pi/Security/pi_patrol/recordings/record_100.mp4'',
          person_name = None\<rparr>],
       sqlite_sequence = 4\<rparr>"
  by (simp add: run_tick_def check_pir_motion_def wake_camera_def capture_frame_def
      capture_body_def recognize_faces_def recognize_one_def classify_def dict_get_def
      CONFIDENCE_THRESHOLD_def do_mkdir_def do_imwrite_def set_frame_def record_clip_def
      log_event_def sqlite_insert_def largest_id_def path_join_def posix_str_def posix_root_def
      EVENTS_DIR_def
      RECORDINGS_DIR_def BASE_DIR_def bindS_def Let_def
      demo_cv_def demo_env_def demo_state_def logging_state_def alice_recognizer_def
      demo_frame_def)

theorem event_ids_strictly_increase_witness:
  "db demo_state = None \<and>
   (\<exists>s'. init_database demo_env demo_state = (Inr (), s') \<and>
         db s' = Some \<lparr>table_rows = [], sqlite_sequence = 0\<rparr>) \<and>
   db logging_state = Some \<lparr>table_rows = [], sqlite_sequence = 0\<rparr> \<and>
   ids_increasing \<lparr>table_rows = [], sqlite_sequence = 0\<rparr> \<and>
   sqlite_error demo_env = None \<and>
   db (log_event demo_env ''motion_detected'' (Some ''a.jpg'') (Some ''alice'') logging_state) =
     Some \<lparr>table_rows =
       [\<lparr>row_id = 1, timestamp = ''2026-11-03 19:14:00'', event_type = ''motion_detected'',
          file_path = Some ''a.jpg'', person_name = Some ''alice''\<rparr>],
       sqlite_sequence = 1\<rparr> \<and>
   (\<exists>t'. db (snd (run_ticks demo_cv [(demo_env, demo_env), (demo_env, demo_env)] logging_state)) =
           Some t' \<and>
         map row_id (table_rows t') = [1, 2, 3, 4] \<and>
         sorted_wrt (<) (map row_id (table_rows t')) \<and>
         distinct (map row_id (table_rows t')))"
  using event_ids_strictly_increase [of demo_state demo_env logging_state
      "\<lparr>table_rows = [], sqlite_sequence = 0\<rparr>" "''motion_detected''" "Some ''a.jpg''" "Some ''alice''"
      demo_cv "[(demo_env, demo_env), (demo_env, demo_env)]"]
    demo_two_ticks
  by (auto simp: logging_state_def demo_state_def demo_env_def ids_increasing_def log_event_def
      sqlite_insert_def largest_id_def init_database_def do_mkdir_def bindS_def)

subsection \<open>The stream\<close>

lemma stream_iteration_disabled:
  "\<not> obs_enabled ob \<Longrightarrow> stream_iteration ob t = (None, t)"
  by (simp add: stream_iteration_def)

lemma generate_stream_from_all_disabled:
  "\<forall>ob\<in>set obs. \<not> obs_enabled ob \<Longrightarrow> generate_stream_from t obs = []"
  by (induction obs arbitrary: t) (simp_all add: stream_iteration_disabled)

lemma stream_iteration_Some_enabled:
  "stream_iteration ob t = (Some part, t') \<Longrightarrow> obs_enabled ob"
  by (auto simp: stream_iteration_def split: if_splits option.splits)

lemma generate_stream_from_length:
  "length (generate_stream_from t obs) \<le> length (filter obs_enabled obs)"
proof (induction obs arbitrary: t)
  case Nil
  then show ?case by simp
next
  case (Cons ob obs)
  obtain p t' where it: "stream_iteration ob t = (p, t')" by (cases "stream_iteration ob t")
  show ?case
  proof (cases p)
    case None
    with it Cons.IH [of t'] show ?thesis by (simp add: le_SucI)
  next
    case (Some part)
    with it have "obs_enabled ob" by (simp add: stream_iteration_Some_enabled)
    with Some it Cons.IH [of t'] show ?thesis by simp
  qed
qed

text \<open>
  Claim C9. An iteration of the loop of \<open>generate_stream\<close> that reads the flag
  \<open>live_preview_enabled\<close> as false yields nothing and leaves \<open>last_sent_time\<close> as it is;
  a run of the generator in which every iteration reads the flag as false yields no
  part at all, and a run never yields more parts than it has iterations that read the
  flag as true. \<open>/api/toggle_preview\<close> with \<open>enable\<close> false clears the flag, and while
  every state the generator sees has the flag cleared, \<open>/live\<close> sends no frame.
\<close>

theorem stream_silent_while_disabled:
  "(\<not> obs_enabled ob \<longrightarrow> stream_iteration ob t = (None, t)) \<and>
   ((\<forall>ob\<in>set obs. \<not> obs_enabled ob) \<longrightarrow> generate_stream obs = []) \<and>
   length (generate_stream obs) \<le> length (filter obs_enabled obs) \<and>
   toggle_preview (JObject [(''enable'', JBool False)]) s =
     (Inr False, s\<lparr>live_preview_enabled := False\<rparr>) \<and>
   ((\<forall>(now, s')\<in>set seen. \<not> live_preview_enabled s') \<longrightarrow>
      fst (live_feed (map (\<lambda>(now, s'). observe now s') seen) s) = [])"
proof -
  have "generate_stream (map (\<lambda>(now, s'). observe now s') seen) = []"
    if "\<forall>(now, s')\<in>set seen. \<not> live_preview_enabled s'"
    using that unfolding generate_stream_def
    by (intro generate_stream_from_all_disabled) (auto simp: observe_def)
  then show ?thesis
    using generate_stream_from_length [of 0 obs]
    by (simp add: stream_iteration_disabled generate_stream_from_all_disabled generate_stream_def
        toggle_preview_def live_feed_def)
qed


text \<open>
  The theorem after a frame is published: the stream yields it with the preview
  enabled, and nothing once the preview is toggled off.
\<close>

theorem stream_silent_while_disabled_witness:
  "generate_stream [observe 1 published_state] \<noteq> [] \<and>
   \<not> obs_enabled (observe 1 (snd (toggle_preview (JObject [(''enable'', JBool False)]) published_state))) \<and>
   stream_iteration
     (observe 1 (snd (toggle_preview (JObject [(''enable'', JBool False)]) published_state))) 0 = (None, 0) \<and>
   generate_stream
     [observe 1 (snd (toggle_preview (JObject [(''enable'', JBool False)]) published_state)),
      observe 2 (snd (toggle_preview (JObject [(''enable'', JBool False)]) published_state))] = [] \<and>
   fst (live_feed
     (map (\<lambda>(now, s'). observe now s')
        [(1, snd (toggle_preview (JObject [(''enable'', JBool False)]) published_state)),
         (2, snd (toggle_preview (JObject [(''enable'', JBool False)]) published_state))])
     published_state) = []"
  using stream_silent_while_disabled [of
      "observe 1 (snd (toggle_preview (JObject [(''enable'', JBool False)]) published_state))" 0
      "[observe 1 (snd (toggle_preview (JObject [(''enable'', JBool False)]) published_state)),
        observe 2 (snd (toggle_preview (JObject [(''enable'', JBool False)]) published_state))]"
      published_state
      "[(1, snd (toggle_preview (JObject [(''enable'', JBool False)]) published_state)),
        (2, snd (toggle_preview (JObject [(''enable'', JBool False)]) published_state))]"]
  by (simp add: observe_def toggle_preview_def published_state_def demo_state_def
      generate_stream_def stream_iteration_def stream_fps_def float_div_1_15 float_sub_def
      float_round_1)

end
